theory Spec2Isabelle
  imports Complex_Main "HOL-Library.Word" "HOL-Library.Sublist"
begin

section \<open>JavaScript strings\<close>

text \<open>
  A JavaScript string is a sequence of 16-bit code units. The regular expressions of
  \<^verbatim>\<open>index.ts\<close> carry no \<^verbatim>\<open>u\<close> flag, so they work on code units too.
  \<open>js\<close> turns an ASCII literal into such a string.
\<close>

type_synonym jstring = "16 word list"

definition js :: "string \<Rightarrow> jstring" where
  "js s = map of_char s"

text \<open>The class \<^verbatim>\<open>\s\<close> of ECMAScript: white space and line terminators.\<close>

definition is_space :: "16 word \<Rightarrow> bool" where
  "is_space c \<longleftrightarrow>
     c = 0x9 \<or> c = 0xA \<or> c = 0xB \<or> c = 0xC \<or> c = 0xD \<or> c = 0x20 \<or> c = 0xA0 \<or>
     c = 0x1680 \<or> (0x2000 \<le> c \<and> c \<le> 0x200A) \<or> c = 0x2028 \<or> c = 0x2029 \<or>
     c = 0x202F \<or> c = 0x205F \<or> c = 0x3000 \<or> c = 0xFEFF"

text \<open>\<^verbatim>\<open>String.prototype.includes\<close>: the pattern occurs somewhere in the string.\<close>

fun js_includes :: "jstring \<Rightarrow> jstring \<Rightarrow> bool" where
  "js_includes [] pat = (pat = [])"
| "js_includes (x # xs) pat = (prefix pat (x # xs) \<or> js_includes xs pat)"

section \<open>Regular expressions with backtracking\<close>

text \<open>
  The fragment of ECMAScript regular expressions that \<^verbatim>\<open>index.ts\<close> uses: literals, the
  greedy option \<^verbatim>\<open>(?:r)?\<close>, the greedy and the lazy star of a character class, one
  capturing group, and sequence. \<open>run r st\<close> lists the states in which \<open>r\<close> can end when
  started in \<open>st\<close>, in the order in which the backtracking matcher tries them; the matcher
  takes the first. A state is the input still to read and the text of capture group 1.
\<close>

datatype cclass = Space | AnyChar

fun member_c :: "cclass \<Rightarrow> 16 word \<Rightarrow> bool" where
  "member_c Space c = is_space c"
| "member_c AnyChar c = True"

datatype regex =
    Lit jstring
  | Opt regex
  | Star cclass
  | StarLazy cclass
  | Group regex
  | Seq regex regex

type_synonym mstate = "jstring \<times> jstring option"

text \<open>What is left after \<^verbatim>\<open>k*\<close>: the longest run first.\<close>

fun greedy :: "cclass \<Rightarrow> jstring \<Rightarrow> jstring list" where
  "greedy k [] = [[]]"
| "greedy k (x # xs) = (if member_c k x then greedy k xs @ [x # xs] else [x # xs])"

text \<open>What is left after \<^verbatim>\<open>k*?\<close>: the shortest run first.\<close>

fun reluctant :: "cclass \<Rightarrow> jstring \<Rightarrow> jstring list" where
  "reluctant k [] = [[]]"
| "reluctant k (x # xs) = (x # xs) # (if member_c k x then reluctant k xs else [])"

primrec run :: "regex \<Rightarrow> mstate \<Rightarrow> mstate list" where
  "run (Lit s) st = (if prefix s (fst st) then [(drop (length s) (fst st), snd st)] else [])"
| "run (Opt r) st = run r st @ [st]"
| "run (Star k) st = map (\<lambda>rest. (rest, snd st)) (greedy k (fst st))"
| "run (StarLazy k) st = map (\<lambda>rest. (rest, snd st)) (reluctant k (fst st))"
| "run (Group r) st =
     map (\<lambda>q. (fst q, Some (take (length (fst st) - length (fst q)) (fst st)))) (run r st)"
| "run (Seq r1 r2) st = concat (map (run r2) (run r1 st))"

definition first_of :: "'a list \<Rightarrow> 'a option" where
  "first_of xs = (case xs of [] \<Rightarrow> None | x # _ \<Rightarrow> Some x)"

text \<open>
  A match that starts at the head of \<open>s\<close>: the matched text (element 0 of the array that
  \<^verbatim>\<open>match\<close> returns) and capture group 1 (element 1, \<open>None\<close> for \<^verbatim>\<open>undefined\<close>).
\<close>

definition exec_at :: "regex \<Rightarrow> jstring \<Rightarrow> (jstring \<times> jstring option) option" where
  "exec_at r s =
     map_option (\<lambda>q. (take (length s - length (fst q)) s, snd q)) (first_of (run r (s, None)))"

text \<open>\<^verbatim>\<open>String.prototype.match\<close> with a non-global expression: the leftmost match.\<close>

fun js_match :: "regex \<Rightarrow> jstring \<Rightarrow> (jstring \<times> jstring option) option" where
  "js_match r [] = exec_at r []"
| "js_match r (x # xs) =
     (case exec_at r (x # xs) of Some m \<Rightarrow> Some m | None \<Rightarrow> js_match r xs)"

text \<open>The two expressions of lines 160 and 172.\<close>

definition fence :: jstring where
  "fence = js ''```''"

definition fence_re :: regex where
  "fence_re =
     Seq (Lit (js ''```'')) (Seq (Opt (Lit (js ''xml''))) (Seq (Star Space)
       (Seq (Group (StarLazy AnyChar)) (Seq (Star Space) (Lit (js ''```''))))))"

definition span_re :: regex where
  "span_re = Seq (Lit (js ''<?xml'')) (Seq (Star AnyChar) (Lit (js ''</jmeterTestPlan>'')))"

text \<open>
  Lines 160 to 165 (and 172 to 177): \<^verbatim>\<open>a.match(r1) || a.match(r2)\<close>, then
  \<^verbatim>\<open>xmlMatch[1] || xmlMatch[0]\<close>, where an undefined or empty group 1 is falsy.
\<close>

definition pick_group :: "jstring \<times> jstring option \<Rightarrow> jstring" where
  "pick_group m = (case snd m of Some g \<Rightarrow> (if g \<noteq> [] then g else fst m) | None \<Rightarrow> fst m)"

section \<open>The extraction rule in the words of the specification\<close>

text \<open>
  A fenced code block starts with a fence, then an optional tag \<^verbatim>\<open>xml\<close>, and ends with the
  next fence that follows; its interior is what stands between them, without the white
  space at either end. \<open>interior_length s\<close> is the length of the interior when the body
  of the block starts at \<open>s\<close>.
\<close>

definition closes :: "jstring \<Rightarrow> bool" where
  "closes s = prefix fence (dropWhile is_space s)"

fun interior_length :: "jstring \<Rightarrow> nat option" where
  "interior_length [] = None"
| "interior_length (x # xs) =
     (if closes (x # xs) then Some 0 else map_option Suc (interior_length xs))"

definition strip_tag :: "jstring \<Rightarrow> jstring" where
  "strip_tag s = (if prefix (js ''xml'') s then drop 3 s else s)"

text \<open>The block that starts at the head of \<open>s\<close>: the whole block and its interior.\<close>

definition block_at :: "jstring \<Rightarrow> (jstring \<times> jstring) option" where
  "block_at s =
     (if prefix fence s then
        (let body = dropWhile is_space (strip_tag (drop 3 s)) in
         case interior_length body of
           None \<Rightarrow> None
         | Some n \<Rightarrow>
             Some (take (length s - length (drop 3 (dropWhile is_space (drop n body)))) s,
                   take n body))
      else None)"

fun fenced_block :: "jstring \<Rightarrow> (jstring \<times> jstring) option" where
  "fenced_block [] = None"
| "fenced_block (x # xs) =
     (case block_at (x # xs) of Some b \<Rightarrow> Some b | None \<Rightarrow> fenced_block xs)"

text \<open>
  The span from an XML prolog through a closing \<^verbatim>\<open>jmeterTestPlan\<close> tag: from the first
  prolog that has a closing tag after it, through the last closing tag.
\<close>

fun last_occurrence :: "jstring \<Rightarrow> jstring \<Rightarrow> nat option" where
  "last_occurrence pat [] = (if pat = [] then Some 0 else None)"
| "last_occurrence pat (x # xs) =
     (case last_occurrence pat xs of
        Some n \<Rightarrow> Some (Suc n)
      | None \<Rightarrow> (if prefix pat (x # xs) then Some 0 else None))"

definition span_at :: "jstring \<Rightarrow> jstring option" where
  "span_at s =
     (if prefix (js ''<?xml'') s then
        map_option (\<lambda>n. take (5 + n + 17) s) (last_occurrence (js ''</jmeterTestPlan>'') (drop 5 s))
      else None)"

fun prolog_span :: "jstring \<Rightarrow> jstring option" where
  "prolog_span [] = None"
| "prolog_span (x # xs) =
     (case span_at (x # xs) of Some b \<Rightarrow> Some b | None \<Rightarrow> prolog_span xs)"

text \<open>
  The rule as the specification words it: the interior of the first fenced block, else
  the span, else the whole text.
\<close>

definition claimed_candidate :: "jstring \<Rightarrow> jstring" where
  "claimed_candidate t =
     (case fenced_block t of
        Some b \<Rightarrow> snd b
      | None \<Rightarrow> (case prolog_span t of Some sp \<Rightarrow> sp | None \<Rightarrow> t))"

text \<open>The same rule, with the whole block standing in for an empty interior.\<close>

definition spec_candidate :: "jstring \<Rightarrow> jstring" where
  "spec_candidate t =
     (case fenced_block t of
        Some b \<Rightarrow> (if snd b = [] then fst b else snd b)
      | None \<Rightarrow> (case prolog_span t of Some sp \<Rightarrow> sp | None \<Rightarrow> t))"

section \<open>Values, errors and the platform\<close>

text \<open>
  A value that \<^verbatim>\<open>JSON.parse\<close> returns. A number is the value of the double (a literal too
  large for a double, which parses to an infinity, is left out); an object lists its own
  properties, each key once.
\<close>

datatype json =
    JNull
  | JBool bool
  | JNum rat
  | JStr jstring
  | JArr "json list"
  | JObj "(jstring \<times> json) list"

text \<open>
  The values the handler meets: \<^verbatim>\<open>undefined\<close>, a JSON value, or a method inherited from a
  prototype (reading \<^verbatim>\<open>entries\<close> from an array gives \<^verbatim>\<open>Array.prototype.entries\<close>).
\<close>

datatype jsval = Undefined | J json | Method

text \<open>The property names that \<^verbatim>\<open>index.ts\<close> reads from request and provider data.\<close>

datatype property =
    P_harContent | P_loadConfig | P_testPlanName | P_aiProvider
  | P_log | P_entries | P_length
  | P_candidates | P_0 | P_content | P_parts | P_text | P_choices | P_message
  | P_request | P_url | P_method | P_time

fun prop_name :: "property \<Rightarrow> jstring" where
  "prop_name P_harContent = js ''harContent''"
| "prop_name P_loadConfig = js ''loadConfig''"
| "prop_name P_testPlanName = js ''testPlanName''"
| "prop_name P_aiProvider = js ''aiProvider''"
| "prop_name P_log = js ''log''"
| "prop_name P_entries = js ''entries''"
| "prop_name P_length = js ''length''"
| "prop_name P_candidates = js ''candidates''"
| "prop_name P_0 = js ''0''"
| "prop_name P_content = js ''content''"
| "prop_name P_parts = js ''parts''"
| "prop_name P_text = js ''text''"
| "prop_name P_choices = js ''choices''"
| "prop_name P_message = js ''message''"
| "prop_name P_request = js ''request''"
| "prop_name P_url = js ''url''"
| "prop_name P_method = js ''method''"
| "prop_name P_time = js ''time''"

text \<open>
  Reading property \<open>p\<close> of a value that is neither \<^verbatim>\<open>null\<close> nor \<^verbatim>\<open>undefined\<close>. An object
  gives its own property; none of the names above is inherited from \<^verbatim>\<open>Object.prototype\<close>.
  An array has \<^verbatim>\<open>length\<close>, index 0 and the inherited method \<^verbatim>\<open>entries\<close>; a string has
  \<^verbatim>\<open>length\<close> and index 0; a function has \<^verbatim>\<open>length\<close>, which is 0 for
  \<^verbatim>\<open>Array.prototype.entries\<close>.
\<close>

fun own :: "jsval \<Rightarrow> property \<Rightarrow> jsval" where
  "own (J (JObj kvs)) p = (case map_of kvs (prop_name p) of Some v \<Rightarrow> J v | None \<Rightarrow> Undefined)"
| "own (J (JArr xs)) P_0 = (case xs of [] \<Rightarrow> Undefined | x # _ \<Rightarrow> J x)"
| "own (J (JArr xs)) P_length = J (JNum (of_nat (length xs)))"
| "own (J (JArr xs)) P_entries = Method"
| "own (J (JStr s)) P_0 = (case s of [] \<Rightarrow> Undefined | c # _ \<Rightarrow> J (JStr [c]))"
| "own (J (JStr s)) P_length = J (JNum (of_nat (length s)))"
| "own Method P_length = J (JNum 0)"
| "own _ _ = Undefined"

fun nullish :: "jsval \<Rightarrow> bool" where
  "nullish Undefined = True"
| "nullish (J JNull) = True"
| "nullish _ = False"

fun truthy :: "jsval \<Rightarrow> bool" where
  "truthy Undefined = False"
| "truthy (J JNull) = False"
| "truthy (J (JBool b)) = b"
| "truthy (J (JNum n)) = (n \<noteq> 0)"
| "truthy (J (JStr s)) = (s \<noteq> [])"
| "truthy _ = True"

text \<open>
  Errors. \<open>Error m\<close> is \<^verbatim>\<open>new Error(m)\<close> of the source; \<open>Native f\<close> is an error that the
  runtime raises, whose message is the engine's.
\<close>

datatype fault =
    NullishRead property
  | Destructure
  | NotCallable
  | NotPrimitive
  | BadJson
  | BadUrl
  | BodyRead
  | FetchFailed

datatype js_error = Error jstring | Native fault

text \<open>
  A number of JavaScript is a double: a finite value, which is a rational, an infinity or
  \<^verbatim>\<open>NaN\<close>. The two zeros are not told apart; they differ only as divisors, and the one
  divisor of \<^verbatim>\<open>index.ts\<close> is the length of an array.
\<close>

datatype jsnum = Fin rat | PosInf | NegInf | NaN

text \<open>The power \<open>2 ^ e\<close> for an integer \<open>e\<close>, by squaring.\<close>

function pow2_nonneg :: "int \<Rightarrow> rat" where
  "pow2_nonneg e =
     (if e \<le> 0 then 1
      else (let h = pow2_nonneg (e div 2) in if even e then h * h else 2 * h * h))"
  by pat_completeness auto
termination
  by (relation "measure nat") auto

definition pow2 :: "int \<Rightarrow> rat" where
  "pow2 e = (if 0 \<le> e then pow2_nonneg e else 1 / pow2_nonneg (- e))"

text \<open>The number of binary digits of \<open>n\<close>.\<close>

function bits :: "int \<Rightarrow> int" where
  "bits n = (if n \<le> 0 then 0 else 1 + bits (n div 2))"
  by pat_completeness auto
termination
  by (relation "measure nat") auto

text \<open>For \<open>a > 0\<close>, the exponent \<open>e\<close> with \<open>2 ^ e \<le> a < 2 ^ (e + 1)\<close>.\<close>

definition ilog2 :: "rat \<Rightarrow> int" where
  "ilog2 a =
     (let d = bits (fst (quotient_of a)) - bits (snd (quotient_of a))
      in if pow2 d \<le> a then d else d - 1)"

definition round_half_even :: "rat \<Rightarrow> int" where
  "round_half_even x =
     (let f = \<lfloor>x\<rfloor>; r = x - of_int f
      in if r < 1 / 2 then f else if 1 / 2 < r then f + 1 else if even f then f else f + 1)"

text \<open>
  Rounding of a rational to the nearest double, ties to the even significand: 53 binary
  digits, the least exponent -1022 (below it the spacing stays \<open>2 ^ -1074\<close>), and an
  infinity from \<open>2 ^ 1024\<close> on.
\<close>

definition round64 :: "rat \<Rightarrow> jsnum" where
  "round64 x =
     (if x = 0 then Fin 0
      else
        (let a = \<bar>x\<bar>;
             q = pow2 (max (ilog2 a) (- 1022) - 52);
             y = of_int (round_half_even (a / q)) * q
         in if pow2 1024 \<le> y then (if 0 < x then PosInf else NegInf)
            else Fin (if 0 < x then y else - y)))"

text \<open>\<open>a + b\<close> on numbers.\<close>

fun fadd :: "jsnum \<Rightarrow> jsnum \<Rightarrow> jsnum" where
  "fadd NaN b = NaN"
| "fadd a NaN = NaN"
| "fadd PosInf NegInf = NaN"
| "fadd NegInf PosInf = NaN"
| "fadd PosInf b = PosInf"
| "fadd a PosInf = PosInf"
| "fadd NegInf b = NegInf"
| "fadd a NegInf = NegInf"
| "fadd (Fin a) (Fin b) = round64 (a + b)"

text \<open>\<open>a / n\<close> for the length \<open>n\<close> of an array.\<close>

fun fdiv_len :: "jsnum \<Rightarrow> nat \<Rightarrow> jsnum" where
  "fdiv_len NaN n = NaN"
| "fdiv_len PosInf n = PosInf"
| "fdiv_len NegInf n = NegInf"
| "fdiv_len (Fin a) n =
     (if n = 0 then (if a = 0 then NaN else if 0 < a then PosInf else NegInf)
      else round64 (a / of_nat n))"

text \<open>
  What the runtime provides and this development does not look into: \<^verbatim>\<open>JSON.parse\<close>
  (\<open>None\<close> when it throws), \<^verbatim>\<open>JSON.stringify\<close> with and without the indentation of 2, the
  decimal text of a number, the source text of the function \<^verbatim>\<open>Array.prototype.entries\<close>, the
  number that a string converts to, \<^verbatim>\<open>new URL(s).hostname\<close> (\<open>None\<close> when the constructor
  throws), the messages of native errors and \<^verbatim>\<open>error.stack\<close>.
\<close>

record platform =
  json_parse :: "jstring \<Rightarrow> json option"
  json_stringify :: "json \<Rightarrow> jstring"
  json_pretty :: "json \<Rightarrow> jstring"
  number_string :: "jsnum \<Rightarrow> jstring"
  function_string :: jstring
  string_to_number :: "jstring \<Rightarrow> jsnum"
  url_hostname :: "jstring \<Rightarrow> jstring option"
  native_message :: "fault \<Rightarrow> jstring"
  stack_trace :: "js_error \<Rightarrow> jstring"

fun message :: "platform \<Rightarrow> js_error \<Rightarrow> jstring" where
  "message pf (Error m) = m"
| "message pf (Native f) = native_message pf f"

text \<open>
  The conversion of a value to a string (\<^verbatim>\<open>ToString\<close>), \<open>None\<close> when it throws a
  \<^verbatim>\<open>TypeError\<close>. An object read from JSON has no callable property: when it has a property
  \<^verbatim>\<open>toString\<close> of its own, neither that nor \<^verbatim>\<open>valueOf\<close> gives a primitive value and the
  conversion throws; otherwise \<^verbatim>\<open>Object.prototype.toString\<close> answers. An array joins the
  conversions of its elements with commas, \<^verbatim>\<open>null\<close> counting as the empty string.
\<close>

fun join_strs :: "jstring option list \<Rightarrow> jstring option" where
  "join_strs [] = Some []"
| "join_strs [x] = x"
| "join_strs (x # y # ys) =
     (case x of
        None \<Rightarrow> None
      | Some s \<Rightarrow> (case join_strs (y # ys) of None \<Rightarrow> None | Some r \<Rightarrow> Some (s @ js '','' @ r)))"

primrec json_to_string :: "platform \<Rightarrow> json \<Rightarrow> jstring option" where
  "json_to_string pf JNull = Some (js ''null'')"
| "json_to_string pf (JBool b) = Some (if b then js ''true'' else js ''false'')"
| "json_to_string pf (JNum n) = Some (number_string pf (Fin n))"
| "json_to_string pf (JStr s) = Some s"
| "json_to_string pf (JArr xs) =
     join_strs (map2 (\<lambda>x r. if x = JNull then Some [] else r) xs (map (json_to_string pf) xs))"
| "json_to_string pf (JObj kvs) =
     (if map_of kvs (js ''toString'') = None then Some (js ''[object Object]'') else None)"

fun to_string :: "platform \<Rightarrow> jsval \<Rightarrow> jstring option" where
  "to_string pf Undefined = Some (js ''undefined'')"
| "to_string pf (J v) = json_to_string pf v"
| "to_string pf Method = Some (function_string pf)"

text \<open>The two secrets of the environment (lines 4 and 104).\<close>

record env =
  OPENAI_API_KEY :: "jstring option"
  GOOGLE_AI_API_KEY :: "jstring option"

text \<open>\<^verbatim>\<open>!key\<close>: the variable is unset or empty.\<close>

fun missing :: "jstring option \<Rightarrow> bool" where
  "missing None = True"
| "missing (Some k) = (k = [])"

section \<open>Requests, responses and effects\<close>

text \<open>
  The incoming request: its method and the outcome of \<^verbatim>\<open>req.json()\<close> (\<open>None\<close> when the
  body is not JSON).
\<close>

record request =
  req_method :: jstring
  req_json :: "json option"

text \<open>
  The call to a provider and its answer: the status, and the body as text (\<open>None\<close> when
  reading the body fails).
\<close>

record outbound =
  out_url :: jstring
  out_method :: jstring
  out_headers :: "(jstring \<times> jstring) list"
  out_body :: jstring

record reply =
  reply_ok :: bool
  reply_statusText :: jstring
  reply_body :: "jstring option"

type_synonym network = "outbound \<Rightarrow> js_error + reply"

datatype log_line =
    LogProcessing
  | LogFound jstring
  | LogApiError jstring jstring
  | LogReceived jstring
  | LogGenerationFailed jstring js_error
  | LogSuccess
  | LogHandlerError js_error

datatype event = Log log_line | Fetch outbound

text \<open>The body of the response, before \<^verbatim>\<open>JSON.stringify\<close>.\<close>

record metadata =
  provider :: jstring
  generatedByAI :: bool
  testPlanName :: jsval

record summary =
  totalRequests :: jsval
  uniqueDomains :: "jstring list"
  methodsUsed :: "jsval list"
  avgResponseTime :: jsnum

datatype body =
    NoBody
  | Success jstring metadata summary
  | Failure jstring jstring

record response =
  status :: nat
  headers :: "(jstring \<times> jstring) list"
  content :: body

text \<open>
  A computation of the handler: the effects it has had, in order, and an error or a value.
\<close>

type_synonym 'a comp = "event list \<times> (js_error + 'a)"

definition ret :: "'a \<Rightarrow> 'a comp" where
  "ret x = ([], Inr x)"

definition throw :: "js_error \<Rightarrow> 'a comp" where
  "throw e = ([], Inl e)"

definition emit :: "event \<Rightarrow> unit comp" where
  "emit ev = ([ev], Inr ())"

definition bind :: "'a comp \<Rightarrow> ('a \<Rightarrow> 'b comp) \<Rightarrow> 'b comp" where
  "bind m f =
     (case snd m of
        Inl e \<Rightarrow> (fst m, Inl e)
      | Inr x \<Rightarrow> (fst m @ fst (f x), snd (f x)))"

text \<open>\<^verbatim>\<open>try { m } catch (error) { h(error) }\<close>\<close>

definition catch :: "'a comp \<Rightarrow> (js_error \<Rightarrow> 'a comp) \<Rightarrow> 'a comp" where
  "catch m h =
     (case snd m of
        Inl e \<Rightarrow> (fst m @ fst (h e), snd (h e))
      | Inr x \<Rightarrow> m)"

text \<open>\<open>v.p\<close>: a \<^verbatim>\<open>TypeError\<close> when \<open>v\<close> is \<^verbatim>\<open>null\<close> or \<^verbatim>\<open>undefined\<close>.\<close>

definition get_prop :: "jsval \<Rightarrow> property \<Rightarrow> jsval comp" where
  "get_prop v p = (if nullish v then throw (Native (NullishRead p)) else ret (own v p))"

text \<open>\<open>v?.p\<close>\<close>

definition opt_prop :: "jsval \<Rightarrow> property \<Rightarrow> jsval" where
  "opt_prop v p = (if nullish v then Undefined else own v p)"

text \<open>\<^verbatim>\<open>${v}\<close> in a template literal.\<close>

definition template :: "platform \<Rightarrow> jsval \<Rightarrow> jstring comp" where
  "template pf v = (case to_string pf v of None \<Rightarrow> throw (Native NotPrimitive) | Some s \<Rightarrow> ret s)"

fun map_comp :: "('a \<Rightarrow> 'b comp) \<Rightarrow> 'a list \<Rightarrow> 'b list comp" where
  "map_comp f [] = ret []"
| "map_comp f (x # xs) = bind (f x) (\<lambda>y. bind (map_comp f xs) (\<lambda>ys. ret (y # ys)))"

text \<open>\<^verbatim>\<open>xs.reduce(f, z)\<close>\<close>

fun reduce_comp :: "('b \<Rightarrow> 'a \<Rightarrow> 'b comp) \<Rightarrow> 'b \<Rightarrow> 'a list \<Rightarrow> 'b comp" where
  "reduce_comp f z [] = ret z"
| "reduce_comp f z (x # xs) = bind (f z x) (\<lambda>y. reduce_comp f y xs)"

text \<open>
  \<^verbatim>\<open>sum + v\<close>, where \<open>sum\<close> is a number or a string. The operator first makes \<open>v\<close> primitive:
  an array or an object becomes the string it converts to, or the conversion throws. When
  either side is a string the two are concatenated as strings, otherwise added as numbers.
\<close>

datatype prim = PNum jsnum | PStr jstring

fun to_primitive :: "platform \<Rightarrow> jsval \<Rightarrow> jsval comp" where
  "to_primitive pf (J (JArr xs)) = bind (template pf (J (JArr xs))) (\<lambda>s. ret (J (JStr s)))"
| "to_primitive pf (J (JObj kvs)) = bind (template pf (J (JObj kvs))) (\<lambda>s. ret (J (JStr s)))"
| "to_primitive pf Method = ret (J (JStr (function_string pf)))"
| "to_primitive pf v = ret v"

fun prim_number :: "platform \<Rightarrow> jsval \<Rightarrow> jsnum" where
  "prim_number pf (J JNull) = Fin 0"
| "prim_number pf (J (JBool b)) = Fin (if b then 1 else 0)"
| "prim_number pf (J (JNum n)) = Fin n"
| "prim_number pf (J (JStr s)) = string_to_number pf s"
| "prim_number pf v = NaN"

fun prim_string :: "platform \<Rightarrow> jsval \<Rightarrow> jstring" where
  "prim_string pf (J JNull) = js ''null''"
| "prim_string pf (J (JBool b)) = (if b then js ''true'' else js ''false'')"
| "prim_string pf (J (JNum n)) = number_string pf (Fin n)"
| "prim_string pf (J (JStr s)) = s"
| "prim_string pf v = js ''undefined''"

fun is_string :: "jsval \<Rightarrow> bool" where
  "is_string (J (JStr s)) = True"
| "is_string v = False"

fun js_add :: "platform \<Rightarrow> prim \<Rightarrow> jsval \<Rightarrow> prim comp" where
  "js_add pf (PStr a) v = bind (to_primitive pf v) (\<lambda>p. ret (PStr (a @ prim_string pf p)))"
| "js_add pf (PNum a) v =
     bind (to_primitive pf v) (\<lambda>p.
       if is_string p then ret (PStr (number_string pf a @ prim_string pf p))
       else ret (PNum (fadd a (prim_number pf p))))"

text \<open>The number that a sum converts to when it is divided.\<close>

fun sum_number :: "platform \<Rightarrow> prim \<Rightarrow> jsnum" where
  "sum_number pf (PNum a) = a"
| "sum_number pf (PStr s) = string_to_number pf s"

text \<open>
  \<^verbatim>\<open>[...new Set(xs)]\<close>: the elements in the order of their first occurrence. A set compares
  with SameValueZero: primitive values by value, objects by identity, and the objects read
  from different entries are different objects.
\<close>

fun same_value_zero :: "jsval \<Rightarrow> jsval \<Rightarrow> bool" where
  "same_value_zero Undefined Undefined = True"
| "same_value_zero (J JNull) (J JNull) = True"
| "same_value_zero (J (JBool a)) (J (JBool b)) = (a = b)"
| "same_value_zero (J (JNum a)) (J (JNum b)) = (a = b)"
| "same_value_zero (J (JStr a)) (J (JStr b)) = (a = b)"
| "same_value_zero _ _ = False"

definition set_add :: "('a \<Rightarrow> 'a \<Rightarrow> bool) \<Rightarrow> 'a list \<Rightarrow> 'a \<Rightarrow> 'a list" where
  "set_add eq seen x = (if list_ex (eq x) seen then seen else seen @ [x])"

definition new_Set :: "('a \<Rightarrow> 'a \<Rightarrow> bool) \<Rightarrow> 'a list \<Rightarrow> 'a list" where
  "new_Set eq xs = foldl (set_add eq) [] xs"

section \<open>The handler\<close>

definition corsHeaders :: "(jstring \<times> jstring) list" where
  "corsHeaders =
     [(js ''Access-Control-Allow-Origin'', js ''*''),
      (js ''Access-Control-Allow-Headers'',
       js ''authorization, x-client-info, apikey, content-type'')]"

definition json_headers :: "(jstring \<times> jstring) list" where
  "json_headers = corsHeaders @ [(js ''Content-Type'', js ''application/json'')]"

text \<open>The fixed part of the prompt, lines 60 to 98; every line ends with a line feed.\<close>

definition prompt_lines :: "string list" where
  "prompt_lines =
    [''You are an expert in Apache JMeter test plan creation.  '',
     ''Your task is to generate a complete Apache JMeter (.jmx) file based on the provided HAR file (HTTP Archive).  '',
     [],
     ''### Requirements:  '',
     ''1. Parse the HAR file and extract:  '',
     ''   - All HTTP requests (method, URL, headers, body, query params, cookies).  '',
     ''   - Request order and sequence should be preserved as in the HAR file.  '',
     ''   - Response payloads that may contain dynamic values (IDs, tokens).  '',
     [],
     ''2. Create a JMeter Test Plan (.jmx) with the following:  '',
     ''   - Thread Group with configurable threads, ramp-up, and loop count.  '',
     ''   - HTTP Request Samplers for every request from HAR.  '',
     ''   - Group requests by domain or sequence for readability.  '',
     ''   - Add `HTTP Header Manager` for common headers (Authorization, Content-Type, User-Agent, etc.).  '',
     ''   - Add `CSV Data Set Config` to externalize dynamic values (e.g., user IDs, emails, tokens).  '',
     ''   - Replace hardcoded parameters with variables `${varName}`.  '',
     [],
     ''3. Correlation and Dynamic Data Handling:  '',
     ''   - Use `JSON Extractor` or `Regular Expression Extractor` to capture response values (auth token, IDs, session keys).  '',
     ''   - Replace dependent requests with extracted variables.  '',
     ''   - If HAR contains repeated values (like auth tokens), store them in variables.  '',
     [],
     ''4. Enhancements:  '',
     ''   - Insert default test data where needed (if request body is empty or HAR doesn'' @ [CHR 0x27] @ ''t provide enough).  '',
     ''   - Add a `View Results Tree` listener for debugging.  '',
     ''   - Ensure the JMX is well-formed XML and directly runnable in JMeter.  '',
     [],
     ''### Output:  '',
     ''- Provide the final JMX file content as valid XML inside a code block.  '',
     ''- Do not summarize, only return the JMX file.  '',
     ''- Ensure all nodes (`TestPlan`, `ThreadGroup`, `HTTPSamplerProxy`, `HeaderManager`, etc.) follow correct JMeter XML structure.  '',
     [],
     ''### Input:  '',
     ''HAR file content (JSON format) will be provided.  '',
     [],
     ''### Task:  '',
     ''Generate the complete JMX file according to the above rules.'',
     [],
     ''### HAR file content:'']"

definition prompt_template :: jstring where
  "prompt_template = js (concat (map (\<lambda>l. l @ [CHR 0x0A]) prompt_lines))"

text \<open>Line 99: \<^verbatim>\<open>JSON.stringify(undefined, null, 2)\<close> is \<^verbatim>\<open>undefined\<close>.\<close>

fun pretty :: "platform \<Rightarrow> jsval \<Rightarrow> jstring" where
  "pretty pf (J v) = json_pretty pf v"
| "pretty pf v = js ''undefined''"

definition jmxPrompt :: "platform \<Rightarrow> jsval \<Rightarrow> jstring" where
  "jmxPrompt pf harData = prompt_template @ pretty pf harData"

text \<open>
  Line 49: the four fields of the body, with the defaults of the destructuring pattern.
  A body that is \<^verbatim>\<open>null\<close> cannot be destructured.
\<close>

record fields =
  harContent :: jsval
  loadConfig :: jsval
  planName :: jsval
  aiProvider :: jsval

definition default_to :: "jsval \<Rightarrow> jsval \<Rightarrow> jsval" where
  "default_to v d = (if v = Undefined then d else v)"

definition read_fields :: "request \<Rightarrow> fields comp" where
  "read_fields req =
     (case req_json req of
        None \<Rightarrow> throw (Native BadJson)
      | Some JNull \<Rightarrow> throw (Native Destructure)
      | Some b \<Rightarrow>
          ret \<lparr>harContent = own (J b) P_harContent,
               loadConfig = own (J b) P_loadConfig,
               planName = default_to (own (J b) P_testPlanName) (J (JStr (js ''HAR Performance Test''))),
               aiProvider = default_to (own (J b) P_aiProvider) (J (JStr (js ''openai'')))\<rparr>)"

text \<open>Line 54.\<close>

fun parse_har :: "platform \<Rightarrow> jsval \<Rightarrow> jsval comp" where
  "parse_har pf (J (JStr s)) =
     (case json_parse pf s of None \<Rightarrow> throw (Native BadJson) | Some v \<Rightarrow> ret (J v))"
| "parse_har pf v = ret v"

text \<open>Lines 103 to 143: the check of the key and the one call.\<close>

definition google_request :: "platform \<Rightarrow> jstring \<Rightarrow> jstring \<Rightarrow> outbound" where
  "google_request pf key prompt =
     \<lparr>out_url = js ''https://generativelanguage.googleapis.com/v1beta/models/gemini-1.5-flash:generateContent?key='' @ key,
      out_method = js ''POST'',
      out_headers = [(js ''Content-Type'', js ''application/json'')],
      out_body = json_stringify pf
        (JObj [(js ''contents'',
           JArr [JObj [(js ''parts'', JArr [JObj [(js ''text'', JStr prompt)]])]])])\<rparr>"

definition openai_request :: "platform \<Rightarrow> jstring \<Rightarrow> jstring \<Rightarrow> outbound" where
  "openai_request pf key prompt =
     \<lparr>out_url = js ''https://api.openai.com/v1/chat/completions'',
      out_method = js ''POST'',
      out_headers =
        [(js ''Authorization'', js ''Bearer '' @ key),
         (js ''Content-Type'', js ''application/json'')],
      out_body = json_stringify pf
        (JObj [(js ''model'', JStr (js ''gpt-5-2025-08-07'')),
           (js ''messages'',
            JArr [JObj [(js ''role'', JStr (js ''system'')),
                        (js ''content'', JStr (js ''You are an expert JMeter test plan generator. Generate only valid JMeter XML files based on HAR file data.''))],
                  JObj [(js ''role'', JStr (js ''user'')), (js ''content'', JStr prompt)]]),
           (js ''max_completion_tokens'', JNum 8000)])\<rparr>"

definition fetch :: "network \<Rightarrow> outbound \<Rightarrow> reply comp" where
  "fetch net out = ([Fetch out], net out)"

definition is_google :: "jsval \<Rightarrow> bool" where
  "is_google p = (p = J (JStr (js ''google'')))"

definition call_provider :: "platform \<Rightarrow> env \<Rightarrow> network \<Rightarrow> jsval \<Rightarrow> jstring \<Rightarrow> reply comp" where
  "call_provider pf ev net p prompt =
     (if is_google p then
        (if missing (GOOGLE_AI_API_KEY ev) then throw (Error (js ''Google AI API key not configured''))
         else fetch net (google_request pf (the (GOOGLE_AI_API_KEY ev)) prompt))
      else
        (if missing (OPENAI_API_KEY ev) then throw (Error (js ''OpenAI API key not configured''))
         else fetch net (openai_request pf (the (OPENAI_API_KEY ev)) prompt)))"

text \<open>
  Lines 156 to 166. The text is read through \<^verbatim>\<open>?.\<close>; when it is truthy, line 158 reads
  the same value again. A truthy value that is not a string has no method \<^verbatim>\<open>match\<close>.
\<close>

definition google_raw :: "json \<Rightarrow> jsval comp" where
  "google_raw jmxData =
     bind (get_prop (J jmxData) P_candidates) (\<lambda>c.
       ret (opt_prop (opt_prop (opt_prop (opt_prop (opt_prop c P_0) P_content) P_parts) P_0) P_text))"

definition google_text :: "json \<Rightarrow> jstring comp" where
  "google_text jmxData =
     bind (google_raw jmxData) (\<lambda>t.
       if truthy t then
         (case t of
            J (JStr aiText) \<Rightarrow>
              (case (case js_match fence_re aiText of Some m \<Rightarrow> Some m | None \<Rightarrow> js_match span_re aiText) of
                 Some xmlMatch \<Rightarrow> ret (pick_group xmlMatch)
               | None \<Rightarrow> ret aiText)
          | _ \<Rightarrow> throw (Native NotCallable))
       else ret [])"

text \<open>Lines 168 to 178.\<close>

definition openai_raw :: "json \<Rightarrow> jsval comp" where
  "openai_raw jmxData =
     bind (get_prop (J jmxData) P_choices) (\<lambda>c.
       ret (opt_prop (opt_prop (opt_prop c P_0) P_message) P_content))"

definition openai_text :: "json \<Rightarrow> jstring comp" where
  "openai_text jmxData =
     bind (openai_raw jmxData) (\<lambda>t.
       if truthy t then
         (case t of
            J (JStr aiText) \<Rightarrow>
              (case (case js_match fence_re aiText of Some m \<Rightarrow> Some m | None \<Rightarrow> js_match span_re aiText) of
                 Some xmlMatch \<Rightarrow> ret (pick_group xmlMatch)
               | None \<Rightarrow> ret aiText)
          | _ \<Rightarrow> throw (Native NotCallable))
       else ret [])"

text \<open>Lines 148 and 153: the body of the answer as text, and decoded.\<close>

definition read_text :: "reply \<Rightarrow> jstring comp" where
  "read_text r = (case reply_body r of None \<Rightarrow> throw (Native BodyRead) | Some t \<Rightarrow> ret t)"

definition read_json :: "platform \<Rightarrow> reply \<Rightarrow> json comp" where
  "read_json pf r =
     bind (read_text r) (\<lambda>t.
       case json_parse pf t of None \<Rightarrow> throw (Native BadJson) | Some v \<Rightarrow> ret v)"

text \<open>
  Lines 145 to 183: the inner \<^verbatim>\<open>try\<close> and its \<^verbatim>\<open>catch\<close>. The lines that log build their
  text from \<^verbatim>\<open>${aiProvider}\<close> first, which can throw, in the \<^verbatim>\<open>catch\<close> block too.
\<close>

definition generate :: "platform \<Rightarrow> jsval \<Rightarrow> reply \<Rightarrow> jstring comp" where
  "generate pf p r =
     catch
       (if \<not> reply_ok r then
          bind (read_text r) (\<lambda>errorText.
          bind (template pf p) (\<lambda>name.
          bind (emit (Log (LogApiError name errorText))) (\<lambda>_.
          bind (template pf p) (\<lambda>name'.
            throw (Error (name' @ js '' API error: '' @ reply_statusText r))))))
        else
          bind (read_json pf r) (\<lambda>jmxData.
          bind (template pf p) (\<lambda>name.
          bind (emit (Log (LogReceived name))) (\<lambda>_.
            if is_google p then google_text jmxData else openai_text jmxData))))
       (\<lambda>e.
          bind (template pf p) (\<lambda>name.
          bind (emit (Log (LogGenerationFailed name e))) (\<lambda>_.
            throw (Error (js ''Failed to generate JMX file using AI: '' @ message pf e)))))"

text \<open>
  Lines 200 to 203. Only an array has the methods \<^verbatim>\<open>map\<close> and \<^verbatim>\<open>reduce\<close>; the callbacks
  read \<^verbatim>\<open>e.request.url\<close>, \<^verbatim>\<open>e.request.method\<close> and \<^verbatim>\<open>e.time\<close>. The constructor of
  \<^verbatim>\<open>URL\<close> converts its argument to a string.
\<close>

definition entry_hostname :: "platform \<Rightarrow> json \<Rightarrow> jstring comp" where
  "entry_hostname pf e =
     bind (get_prop (J e) P_request) (\<lambda>r.
     bind (get_prop r P_url) (\<lambda>u.
     bind (template pf u) (\<lambda>s.
       case url_hostname pf s of
         None \<Rightarrow> throw (Native BadUrl)
       | Some h \<Rightarrow> ret h)))"

definition entry_method :: "json \<Rightarrow> jsval comp" where
  "entry_method e = bind (get_prop (J e) P_request) (\<lambda>r. get_prop r P_method)"

fun entries_map :: "(json \<Rightarrow> 'a comp) \<Rightarrow> jsval \<Rightarrow> 'a list comp" where
  "entries_map f (J (JArr es)) = map_comp f es"
| "entries_map f v = throw (Native NotCallable)"

text \<open>
  Line 203: \<^verbatim>\<open>entries.reduce((sum, e) => sum + e.time, 0) / entries.length\<close>.
\<close>

definition add_time :: "platform \<Rightarrow> prim \<Rightarrow> json \<Rightarrow> prim comp" where
  "add_time pf acc e = bind (get_prop (J e) P_time) (\<lambda>t. js_add pf acc t)"

fun average :: "platform \<Rightarrow> jsval \<Rightarrow> jsnum comp" where
  "average pf (J (JArr es)) =
     bind (reduce_comp (add_time pf) (PNum (Fin 0)) es) (\<lambda>total.
       ret (fdiv_len (sum_number pf total) (length es)))"
| "average pf v = throw (Native NotCallable)"

definition make_summary :: "platform \<Rightarrow> jsval \<Rightarrow> summary comp" where
  "make_summary pf entries =
     bind (get_prop entries P_length) (\<lambda>n.
     bind (entries_map (entry_hostname pf) entries) (\<lambda>hosts.
     bind (entries_map entry_method entries) (\<lambda>methods.
     bind (average pf entries) (\<lambda>avg.
       ret \<lparr>totalRequests = n,
            uniqueDomains = new_Set (=) hosts,
            methodsUsed = new_Set same_value_zero methods,
            avgResponseTime = avg\<rparr>))))"

text \<open>
  Lines 51 to 57: the HAR document and its entries. What the handler knows after them:
  the fields of the request, the document and the entries.
\<close>

record decoded =
  dec_fields :: fields
  dec_har :: jsval
  dec_entries :: jsval

definition decode :: "platform \<Rightarrow> fields \<Rightarrow> decoded comp" where
  "decode pf fs =
     bind (emit (Log LogProcessing)) (\<lambda>_.
     bind (parse_har pf (harContent fs)) (\<lambda>harData.
     bind (get_prop harData P_log) (\<lambda>lg.
     bind (get_prop lg P_entries) (\<lambda>entries.
     bind (get_prop entries P_length) (\<lambda>n.
     bind (template pf n) (\<lambda>found.
     bind (emit (Log (LogFound found))) (\<lambda>_.
       ret \<lparr>dec_fields = fs, dec_har = harData, dec_entries = entries\<rparr>)))))))"

text \<open>
  The state of the handler when line 185 is reached: the fields of the request, the
  entries and the candidate artifact.
\<close>

record candidate =
  cand_fields :: fields
  cand_entries :: jsval
  jmxContent :: jstring

text \<open>Lines 59 to 183: the prompt, the call and the extraction.\<close>

definition produce :: "platform \<Rightarrow> env \<Rightarrow> network \<Rightarrow> decoded \<Rightarrow> candidate comp" where
  "produce pf ev net d =
     bind (call_provider pf ev net (aiProvider (dec_fields d)) (jmxPrompt pf (dec_har d))) (\<lambda>r.
     bind (generate pf (aiProvider (dec_fields d)) r) (\<lambda>x.
       ret \<lparr>cand_fields = dec_fields d, cand_entries = dec_entries d, jmxContent = x\<rparr>))"

text \<open>Lines 49 to 183.\<close>

definition prepare :: "platform \<Rightarrow> env \<Rightarrow> network \<Rightarrow> request \<Rightarrow> candidate comp" where
  "prepare pf ev net req =
     bind (read_fields req) (\<lambda>fs. bind (decode pf fs) (produce pf ev net))"

text \<open>Lines 185 to 207.\<close>

definition valid_jmx :: "jstring \<Rightarrow> bool" where
  "valid_jmx x \<longleftrightarrow> x \<noteq> [] \<and> js_includes x (js ''<jmeterTestPlan'')"

definition finish :: "platform \<Rightarrow> candidate \<Rightarrow> response comp" where
  "finish pf c =
     (if \<not> valid_jmx (jmxContent c) then
        throw (Error (js ''AI did not generate valid JMeter XML content''))
      else
        bind (emit (Log LogSuccess)) (\<lambda>_.
        bind (make_summary pf (cand_entries c)) (\<lambda>s.
          ret \<lparr>status = 200, headers = json_headers,
               content = Success (jmxContent c)
                 \<lparr>provider = (if is_google (aiProvider (cand_fields c))
                     then js ''Google AI Studio'' else js ''OpenAI''),
                  generatedByAI = True,
                  testPlanName = planName (cand_fields c)\<rparr> s\<rparr>)))"

text \<open>Lines 209 to 218.\<close>

definition error_response :: "platform \<Rightarrow> js_error \<Rightarrow> response" where
  "error_response pf e =
     \<lparr>status = 500, headers = json_headers, content = Failure (message pf e) (stack_trace pf e)\<rparr>"

text \<open>Lines 43 to 219: the effects of one invocation and its response.\<close>

definition handler :: "platform \<Rightarrow> env \<Rightarrow> network \<Rightarrow> request \<Rightarrow> event list \<times> response" where
  "handler pf ev net req =
     (if req_method req = js ''OPTIONS'' then
        ([], \<lparr>status = 200, headers = corsHeaders, content = NoBody\<rparr>)
      else
        (case bind (prepare pf ev net req) (finish pf) of
           (evs, Inr resp) \<Rightarrow> (evs, resp)
         | (evs, Inl e) \<Rightarrow> (evs @ [Log (LogHandlerError e)], error_response pf e)))"

section \<open>The HAR document in the words of the specification\<close>

text \<open>
  The HAR document of a request: the field \<^verbatim>\<open>harContent\<close> of the body, decoded when it is a
  string. Its entries: the array \<^verbatim>\<open>log.entries\<close>. The URL and the method of an entry: the
  strings \<^verbatim>\<open>request.url\<close> and \<^verbatim>\<open>request.method\<close>. The hostname of an entry: what the URL
  parser makes of its URL.
\<close>

definition har_document :: "platform \<Rightarrow> request \<Rightarrow> json option" where
  "har_document pf req =
     (case req_json req of
        Some (JObj kvs) \<Rightarrow>
          (case map_of kvs (js ''harContent'') of
             Some (JStr s) \<Rightarrow> json_parse pf s
           | Some v \<Rightarrow> Some v
           | None \<Rightarrow> None)
      | _ \<Rightarrow> None)"

definition har_entries :: "json \<Rightarrow> json list option" where
  "har_entries doc =
     (case doc of
        JObj kvs \<Rightarrow>
          (case map_of kvs (js ''log'') of
             Some (JObj l) \<Rightarrow>
               (case map_of l (js ''entries'') of Some (JArr es) \<Rightarrow> Some es | _ \<Rightarrow> None)
           | _ \<Rightarrow> None)
      | _ \<Rightarrow> None)"

definition request_field :: "jstring \<Rightarrow> json \<Rightarrow> jstring option" where
  "request_field k e =
     (case e of
        JObj kvs \<Rightarrow>
          (case map_of kvs (js ''request'') of
             Some (JObj r) \<Rightarrow> (case map_of r k of Some (JStr s) \<Rightarrow> Some s | _ \<Rightarrow> None)
           | _ \<Rightarrow> None)
      | _ \<Rightarrow> None)"

definition well_formed_entry :: "json \<Rightarrow> bool" where
  "well_formed_entry e \<longleftrightarrow>
     request_field (js ''url'') e \<noteq> None \<and> request_field (js ''method'') e \<noteq> None"

definition entry_host :: "platform \<Rightarrow> json \<Rightarrow> jstring option" where
  "entry_host pf e =
     (case request_field (js ''url'') e of None \<Rightarrow> None | Some u \<Rightarrow> url_hostname pf u)"

text \<open>
  The time of an entry: the number \<^verbatim>\<open>time\<close>. The arithmetic mean of a list of times, and
  the mean as double arithmetic finds it: the times added from left to right, starting
  from 0, each sum rounded, and the last sum divided by their number and rounded.
\<close>

definition entry_time :: "json \<Rightarrow> rat option" where
  "entry_time e =
     (case e of
        JObj kvs \<Rightarrow> (case map_of kvs (js ''time'') of Some (JNum t) \<Rightarrow> Some t | _ \<Rightarrow> None)
      | _ \<Rightarrow> None)"

definition timed_entry :: "json \<Rightarrow> bool" where
  "timed_entry e \<longleftrightarrow> entry_time e \<noteq> None"

definition entry_times :: "json list \<Rightarrow> rat list" where
  "entry_times es = List.map_filter entry_time es"

definition exact_mean :: "rat list \<Rightarrow> rat" where
  "exact_mean ts = sum_list ts / of_nat (length ts)"

definition double_mean :: "rat list \<Rightarrow> jsnum" where
  "double_mean ts = fdiv_len (foldl fadd (Fin 0) (map Fin ts)) (length ts)"

section \<open>Sample data\<close>

text \<open>An answer that carries the text \<open>t\<close> in the shape of either provider.\<close>

definition sample_answer :: "jstring \<Rightarrow> json" where
  "sample_answer t =
     JObj [(js ''candidates'',
            JArr [JObj [(js ''content'', JObj [(js ''parts'', JArr [JObj [(js ''text'', JStr t)]])])]]),
           (js ''choices'',
            JArr [JObj [(js ''message'', JObj [(js ''content'', JStr t)])]])]"

text \<open>A fenced test plan after a line of prose, and a fenced block with nothing in it.\<close>

definition fenced_plan :: jstring where
  "fenced_plan =
     js ''Here is the plan:'' @ [0x0A] @ js ''```xml'' @ [0x0A] @
     js ''<jmeterTestPlan></jmeterTestPlan>'' @ [0x0A] @ js ''```''"

text \<open>
  A HAR document of three entries, and a request body that selects a provider and carries
  a load configuration.
\<close>

definition sample_entry :: "string \<Rightarrow> string \<Rightarrow> rat \<Rightarrow> json" where
  "sample_entry m u t =
     JObj [(js ''request'', JObj [(js ''method'', JStr (js m)), (js ''url'', JStr (js u))]),
           (js ''time'', JNum t)]"

text \<open>The doubles that the literals \<^verbatim>\<open>0.1\<close>, \<^verbatim>\<open>0.2\<close> and \<^verbatim>\<open>0.3\<close> denote.\<close>

definition tenth :: rat where
  "tenth = 3602879701896397 / 36028797018963968"

definition fifth :: rat where
  "fifth = 3602879701896397 / 18014398509481984"

definition three_tenths :: rat where
  "three_tenths = 5404319552844595 / 18014398509481984"

definition sample_entries :: "json list" where
  "sample_entries =
     [sample_entry ''GET'' ''https://a.example/x'' tenth,
      sample_entry ''POST'' ''https://a.example/y'' fifth,
      sample_entry ''GET'' ''https://b.example/'' three_tenths]"

definition har_of :: "json list \<Rightarrow> json" where
  "har_of es = JObj [(js ''log'', JObj [(js ''entries'', JArr es)])]"

definition sample_har :: json where
  "sample_har = har_of sample_entries"

definition sample_body :: "json \<Rightarrow> string \<Rightarrow> json \<Rightarrow> json" where
  "sample_body har p lc =
     JObj [(js ''harContent'', har), (js ''loadConfig'', lc), (js ''aiProvider'', JStr (js p))]"

text \<open>A body whose provider selection is an object that does not convert to a string.\<close>

definition odd_provider_body :: json where
  "odd_provider_body =
     JObj [(js ''harContent'', sample_har), (js ''aiProvider'', JObj [(js ''toString'', JNum 1)])]"

definition load_config :: "rat \<Rightarrow> json" where
  "load_config n =
     JObj [(js ''threadCount'', JNum n), (js ''rampUpTime'', JNum 60),
           (js ''duration'', JNum 300), (js ''loopCount'', JNum 1)]"

definition post :: "json \<Rightarrow> request" where
  "post b = \<lparr>req_method = js ''POST'', req_json = Some b\<rparr>"


text \<open>
  A platform whose parser knows two answers of a provider, one with a fenced test plan
  and one in prose, and whose URL parser knows the three URLs above.
\<close>

definition sample_platform :: platform where
  "sample_platform =
     \<lparr>json_parse =
        (\<lambda>s. if s = js ''plan'' then Some (sample_answer fenced_plan)
             else if s = js ''prose'' then Some (sample_answer (js ''I cannot do that.''))
             else None),
      json_stringify = (\<lambda>v. js ''json''),
      json_pretty = (\<lambda>v. js ''har''),
      number_string = (\<lambda>n. if n = Fin 3 then js ''3'' else js ''0''),
      function_string = js ''function entries() { [native code] }'',
      string_to_number = (\<lambda>s. NaN),
      url_hostname =
        (\<lambda>s. if s = js ''https://a.example/x'' \<or> s = js ''https://a.example/y''
               then Some (js ''a.example'')
             else if s = js ''https://b.example/'' then Some (js ''b.example'')
             else None),
      native_message =
        (\<lambda>f. case f of
               BadJson \<Rightarrow> js ''Unexpected token''
             | BadUrl \<Rightarrow> js ''Invalid URL''
             | FetchFailed \<Rightarrow> js ''error sending request''
             | BodyRead \<Rightarrow> js ''error reading a body''
             | NotPrimitive \<Rightarrow> js ''Cannot convert object to primitive value''
             | _ \<Rightarrow> js ''Cannot read properties''),
      stack_trace = (\<lambda>e. js ''stack'')\<rparr>"

definition no_keys :: env where
  "no_keys = \<lparr>OPENAI_API_KEY = None, GOOGLE_AI_API_KEY = None\<rparr>"

definition with_keys :: env where
  "with_keys = \<lparr>OPENAI_API_KEY = Some (js ''sk-test''), GOOGLE_AI_API_KEY = Some (js ''g-test'')\<rparr>"

definition refusal :: reply where
  "refusal =
     \<lparr>reply_ok = False, reply_statusText = js ''Too Many Requests'', reply_body = Some (js ''quota exceeded'')\<rparr>"

definition answer :: "string \<Rightarrow> reply" where
  "answer b = \<lparr>reply_ok = True, reply_statusText = js ''OK'', reply_body = Some (js b)\<rparr>"

definition sample_network :: "reply \<Rightarrow> network" where
  "sample_network r = (\<lambda>out. Inr r)"

definition empty_block :: jstring where
  "empty_block = js ''```xml'' @ [0x0A] @ js ''```''"

section \<open>The matcher and the fenced block\<close>

lemma first_of_simps [simp]:
  "first_of [] = None" "first_of (x # xs) = Some x"
  by (simp_all add: first_of_def)

lemma first_of_append:
  "first_of (xs @ ys) = (case first_of xs of Some x \<Rightarrow> Some x | None \<Rightarrow> first_of ys)"
  by (cases xs) simp_all

lemma first_of_None_iff: "first_of xs = None \<longleftrightarrow> xs = []"
  by (cases xs) simp_all

lemma fence_eq: "fence = [96, 96, 96]"
  by (simp add: fence_def js_def)

lemma xml_eq: "js ''xml'' = [120, 109, 108]"
  by (simp add: js_def)

lemma not_space_tick: "\<not> is_space 96"
  by (simp add: is_space_def)

lemma space_not_fence: "is_space x \<Longrightarrow> \<not> prefix fence (x # xs)"
  using not_space_tick by (auto simp: fence_eq)

lemma closes_space: "is_space x \<Longrightarrow> closes (x # xs) = closes xs"
  by (simp add: closes_def)

lemma closes_nonspace: "\<not> is_space x \<Longrightarrow> closes (x # xs) = prefix fence (x # xs)"
  by (simp add: closes_def)

lemma closes_Nil: "\<not> closes []"
  by (simp add: closes_def fence_eq)

text \<open>The tail \<^verbatim>\<open>\s*```\<close> of the expression has at most one way to match.\<close>

lemma run_tail:
  "concat (map (run (Lit fence)) (map (\<lambda>rest. (rest, c)) (greedy Space v))) =
     (if closes v then [(drop 3 (dropWhile is_space v), c)] else [])"
proof (induction v)
  case Nil
  show ?case by (simp add: closes_Nil) (simp add: fence_eq)
next
  case (Cons x xs)
  show ?case
  proof (cases "is_space x")
    case True
    then show ?thesis
      using Cons space_not_fence [OF True, of xs] by (simp add: closes_space)
  next
    case False
    then show ?thesis
      by (simp add: closes_nonspace) (simp add: fence_eq numeral_2_eq_2)
  qed
qed

lemma reluctant_length: "r \<in> set (reluctant k u) \<Longrightarrow> length r \<le> length u"
  by (induction u) (auto split: if_splits)

lemma closes_interior: "closes s \<Longrightarrow> interior_length s = Some 0"
  by (cases s) (simp_all add: closes_Nil)

text \<open>The lazy group: the first remainder that the tail accepts.\<close>

lemma run_lazy:
  "first_of (concat (map (\<lambda>r. if closes r
        then [(drop 3 (dropWhile is_space r), Some (pre @ take (length u - length r) u))] else [])
      (reluctant AnyChar u))) =
   (case interior_length u of
      None \<Rightarrow> None
    | Some n \<Rightarrow> Some (drop 3 (dropWhile is_space (drop n u)), Some (pre @ take n u)))"
proof (induction u arbitrary: pre)
  case Nil
  show ?case by (simp add: closes_Nil)
next
  case (Cons x xs)
  have eq: "map (\<lambda>r. if closes r
        then [(drop 3 (dropWhile is_space r), Some (pre @ take (length (x # xs) - length r) (x # xs)))]
        else []) (reluctant AnyChar xs) =
      map (\<lambda>r. if closes r
        then [(drop 3 (dropWhile is_space r), Some ((pre @ [x]) @ take (length xs - length r) xs))]
        else []) (reluctant AnyChar xs)"
    by (rule map_cong) (auto dest: reluctant_length simp: Suc_diff_le)
  show ?case
  proof (cases "closes (x # xs)")
    case True
    then show ?thesis by simp
  next
    case False
    then show ?thesis
      using Cons [of "pre @ [x]"] by (simp add: eq split: option.splits)
  qed
qed

lemma run_tail_re:
  "run (Seq (Star Space) (Lit fence)) (v, c) =
     (if closes v then [(drop 3 (dropWhile is_space v), c)] else [])"
  using run_tail [of c v] by (simp only: run.simps fst_conv snd_conv)

lemma run_group:
  "first_of (run (Seq (Group (StarLazy AnyChar)) (Seq (Star Space) (Lit fence))) (u, c)) =
   (case interior_length u of
      None \<Rightarrow> None
    | Some n \<Rightarrow> Some (drop 3 (dropWhile is_space (drop n u)), Some (take n u)))"
proof -
  define T where "T = Seq (Star Space) (Lit fence)"
  have T: "run T (v, d) = (if closes v then [(drop 3 (dropWhile is_space v), d)] else [])"
    for v d
    unfolding T_def by (rule run_tail_re)
  have "run (Seq (Group (StarLazy AnyChar)) T) (u, c) =
      concat (map (\<lambda>r. if closes r
        then [(drop 3 (dropWhile is_space r), Some ([] @ take (length u - length r) u))] else [])
      (reluctant AnyChar u))"
    by (simp add: T comp_def cong: if_cong)
  then have "first_of (run (Seq (Group (StarLazy AnyChar)) T) (u, c)) =
      (case interior_length u of
         None \<Rightarrow> None
       | Some n \<Rightarrow> Some (drop 3 (dropWhile is_space (drop n u)), Some ([] @ take n u)))"
    by (simp only: run_lazy)
  then show ?thesis
    unfolding T_def by (simp cong: option.case_cong)
qed

lemma interior_dropWhile:
  "interior_length (dropWhile is_space s) = None \<Longrightarrow> interior_length s = None"
proof (induction s)
  case Nil
  then show ?case by simp
next
  case (Cons x xs)
  show ?case
  proof (cases "is_space x")
    case True
    with Cons have "interior_length xs = None" by simp
    moreover have "\<not> closes xs"
      using closes_interior [of xs] \<open>interior_length xs = None\<close> by auto
    ultimately show ?thesis
      using True by (simp add: closes_space)
  next
    case False
    with Cons.prems show ?thesis by simp
  qed
qed

lemma greedy_first:
  assumes "\<And>x xs. is_space x \<Longrightarrow> f (dropWhile is_space xs) = [] \<Longrightarrow> f (x # xs) = []"
  shows "first_of (concat (map f (greedy Space u))) = first_of (f (dropWhile is_space u))"
proof (induction u)
  case Nil
  show ?case by simp
next
  case (Cons x xs)
  show ?case
  proof (cases "is_space x")
    case True
    show ?thesis
    proof (cases "first_of (f (dropWhile is_space xs))")
      case None
      then have "f (dropWhile is_space xs) = []" by (simp add: first_of_None_iff)
      then have "f (x # xs) = []" using assms True by blast
      then show ?thesis using True Cons None by (simp add: first_of_append)
    next
      case (Some a)
      then show ?thesis using True Cons by (simp add: first_of_append)
    qed
  next
    case False
    then show ?thesis by simp
  qed
qed

lemma run_body:
  "first_of (run (Seq (Star Space)
       (Seq (Group (StarLazy AnyChar)) (Seq (Star Space) (Lit fence)))) (v, c)) =
   (case interior_length (dropWhile is_space v) of
      None \<Rightarrow> None
    | Some n \<Rightarrow> Some (drop 3 (dropWhile is_space (drop n (dropWhile is_space v))),
        Some (take n (dropWhile is_space v))))"
proof -
  define G where "G = Seq (Group (StarLazy AnyChar)) (Seq (Star Space) (Lit fence))"
  have G: "first_of (run G (u, c)) =
      (case interior_length u of
         None \<Rightarrow> None
       | Some n \<Rightarrow> Some (drop 3 (dropWhile is_space (drop n u)), Some (take n u)))" for u
    unfolding G_def by (rule run_group)
  have empty: "run G (u, c) = [] \<longleftrightarrow> interior_length u = None" for u
    using G [of u] by (cases "run G (u, c)") (auto split: option.splits)
  have "first_of (concat (map (\<lambda>r. run G (r, c)) (greedy Space v))) =
      first_of (run G (dropWhile is_space v, c))"
  proof (rule greedy_first)
    fix x xs
    assume sp: "is_space x" and "run G (dropWhile is_space xs, c) = []"
    then have "interior_length (dropWhile is_space (x # xs)) = None"
      by (simp add: empty)
    then show "run G (x # xs, c) = []"
      using interior_dropWhile [of "x # xs"] by (simp only: empty)
  qed
  moreover have "run (Seq (Star Space) G) (v, c) =
      concat (map (\<lambda>r. run G (r, c)) (greedy Space v))"
    by (simp add: comp_def)
  ultimately have "first_of (run (Seq (Star Space) G) (v, c)) =
      first_of (run G (dropWhile is_space v, c))"
    by simp
  then show ?thesis
    unfolding G [of "dropWhile is_space v"] unfolding G_def .
qed

lemma interior_xml: "interior_length (js ''xml'' @ s) = None \<longleftrightarrow> interior_length s = None"
  by (simp add: xml_eq closes_def is_space_def fence_eq)

lemma not_space_x: "\<not> is_space 120"
  by (simp add: is_space_def)

lemma run_tagged:
  "first_of (run (Seq (Opt (Lit (js ''xml''))) (Seq (Star Space)
       (Seq (Group (StarLazy AnyChar)) (Seq (Star Space) (Lit fence))))) (s, c)) =
   (case interior_length (dropWhile is_space (strip_tag s)) of
      None \<Rightarrow> None
    | Some n \<Rightarrow> Some (drop 3 (dropWhile is_space (drop n (dropWhile is_space (strip_tag s)))),
        Some (take n (dropWhile is_space (strip_tag s)))))"
proof -
  define B where "B = Seq (Star Space)
    (Seq (Group (StarLazy AnyChar)) (Seq (Star Space) (Lit fence)))"
  have B: "first_of (run B (v, c)) =
      (case interior_length (dropWhile is_space v) of
         None \<Rightarrow> None
       | Some n \<Rightarrow> Some (drop 3 (dropWhile is_space (drop n (dropWhile is_space v))),
           Some (take n (dropWhile is_space v))))" for v
    unfolding B_def by (rule run_body)
  have run: "run (Seq (Opt (Lit (js ''xml''))) B) (s, c) =
      (if prefix (js ''xml'') s then run B (drop 3 s, c) else []) @ run B (s, c)"
    by (simp add: xml_eq numeral_3_eq_3)
  have key: "first_of (run (Seq (Opt (Lit (js ''xml''))) B) (s, c)) =
      first_of (run B (strip_tag s, c))"
  proof (cases "prefix (js ''xml'') s")
    case False
    then show ?thesis
      by (simp add: run strip_tag_def)
  next
    case True
    then obtain t where s: "s = js ''xml'' @ t"
      by (auto simp: prefix_def)
    have len: "length (js ''xml'') = 3" by (simp add: js_def)
    have drop: "drop 3 s = t" using s len by simp
    have tag: "strip_tag s = t" using True drop by (simp add: strip_tag_def)
    show ?thesis
    proof (cases "interior_length (dropWhile is_space t)")
      case None
      then have "interior_length t = None" by (rule interior_dropWhile)
      then have "interior_length s = None" by (simp add: s interior_xml)
      moreover have "dropWhile is_space s = s"
        using not_space_x by (simp add: s xml_eq)
      ultimately have "first_of (run B (s, c)) = None"
        by (simp add: B)
      moreover have "first_of (run B (t, c)) = None"
        using None by (simp add: B)
      ultimately show ?thesis
        using True by (simp add: len drop tag first_of_append)
    next
      case (Some n)
      then have "first_of (run B (t, c)) \<noteq> None"
        by (simp add: B)
      then show ?thesis
        using True by (auto simp: len drop tag first_of_append)
    qed
  qed
  then show ?thesis
    unfolding B [of "strip_tag s"] unfolding B_def .
qed

lemma exec_at_fence:
  "exec_at fence_re s = map_option (\<lambda>b. (fst b, Some (snd b))) (block_at s)"
proof -
  define R where "R = Seq (Opt (Lit (js ''xml''))) (Seq (Star Space)
    (Seq (Group (StarLazy AnyChar)) (Seq (Star Space) (Lit fence))))"
  have R: "first_of (run R (v, None)) =
      (case interior_length (dropWhile is_space (strip_tag v)) of
         None \<Rightarrow> None
       | Some n \<Rightarrow> Some (drop 3 (dropWhile is_space (drop n (dropWhile is_space (strip_tag v)))),
           Some (take n (dropWhile is_space (strip_tag v)))))" for v
    unfolding R_def by (rule run_tagged)
  have re: "fence_re = Seq (Lit fence) R"
    by (simp add: fence_re_def R_def fence_def)
  have len: "length fence = 3" by (simp add: fence_eq)
  have "run fence_re (s, None) = (if prefix fence s then run R (drop 3 s, None) else [])"
    by (simp add: re len)
  then show ?thesis
    using R [of "drop 3 s"]
    by (simp add: exec_at_def block_at_def Let_def split: option.splits)
qed

lemma js_match_fence:
  "js_match fence_re t = map_option (\<lambda>b. (fst b, Some (snd b))) (fenced_block t)"
proof (induction t)
  case Nil
  show ?case by (simp add: exec_at_fence block_at_def fence_eq)
next
  case (Cons x xs)
  then show ?case by (simp add: exec_at_fence split: option.splits)
qed

section \<open>The matcher and the span\<close>

lemma last_occurrence_bound: "last_occurrence pat u = Some n \<Longrightarrow> n + length pat \<le> length u"
proof (induction u arbitrary: n)
  case Nil
  then show ?case by (simp split: if_splits)
next
  case (Cons x xs)
  then show ?case
    by (auto split: option.splits if_splits dest: prefix_length_le)
qed

lemma run_any_lit:
  "first_of (concat (map (run (Lit pat)) (map (\<lambda>rest. (rest, c)) (greedy AnyChar u)))) =
     map_option (\<lambda>n. (drop (n + length pat) u, c)) (last_occurrence pat u)"
proof (induction u)
  case Nil
  show ?case by simp
next
  case (Cons x xs)
  then show ?case
    by (simp add: first_of_append split: option.splits)
qed

lemma exec_at_span: "exec_at span_re s = map_option (\<lambda>b. (b, None)) (span_at s)"
proof (cases "prefix (js ''<?xml'') s")
  case False
  then show ?thesis
    by (simp add: exec_at_def span_re_def span_at_def)
next
  case True
  define close where "close = js ''</jmeterTestPlan>''"
  have len: "length (js ''<?xml'') = 5" "length close = 17"
    by (simp_all add: js_def close_def)
  have s5: "5 \<le> length s"
    using prefix_length_le [OF True] len by simp
  have run: "first_of (run span_re (s, None)) =
      map_option (\<lambda>n. (drop (n + 17) (drop 5 s), None)) (last_occurrence close (drop 5 s))"
    using True run_any_lit [of close None "drop 5 s"]
    by (simp add: span_re_def len close_def [symmetric])
  show ?thesis
  proof (cases "last_occurrence close (drop 5 s)")
    case None
    then show ?thesis
      using True by (simp add: exec_at_def run span_at_def close_def [symmetric])
  next
    case (Some n)
    have "n + 17 \<le> length s - 5"
      using last_occurrence_bound [OF Some] len by simp
    then have "length s - (length s - (5 + (n + 17))) = 5 + n + 17"
      using s5 by arith
    then show ?thesis
      using True Some
      by (simp add: exec_at_def run span_at_def close_def [symmetric] add.commute)
  qed
qed

lemma js_match_span: "js_match span_re t = map_option (\<lambda>b. (b, None)) (prolog_span t)"
proof (induction t)
  case Nil
  show ?case by (simp add: exec_at_span span_at_def js_def)
next
  case (Cons x xs)
  then show ?case by (simp add: exec_at_span split: option.splits)
qed

text \<open>Lines 160 to 165, on any text: what the two expressions and the fallback select.\<close>

lemma xmlMatch_spec:
  "(case (case js_match fence_re t of Some m \<Rightarrow> Some m | None \<Rightarrow> js_match span_re t) of
      Some xmlMatch \<Rightarrow> ret (pick_group xmlMatch)
    | None \<Rightarrow> ret t) = (ret (spec_candidate t) :: jstring comp)"
  by (simp add: js_match_fence js_match_span spec_candidate_def pick_group_def
      split: option.splits)

lemma spec_candidate_Nil: "spec_candidate [] = []"
  by (simp add: spec_candidate_def)

lemma bind_ret: "bind (ret x) f = f x"
  by (simp add: bind_def ret_def)

section \<open>What a fenced block and a span are\<close>

text \<open>
  The definitions of the first fenced block and of the span, read back as statements
  about the text: a fenced block is a fence, an optional tag, white space, an interior
  that neither starts nor ends with white space, white space and a fence; there is one
  exactly when the text holds two fences that do not overlap. The span runs from a prolog
  through a closing tag after which no closing tag follows; there is one exactly when a
  closing tag follows a prolog.
\<close>

lemma strip_tag_split:
  "\<exists>tag. s = tag @ strip_tag s \<and> (tag = [] \<or> tag = js ''xml'')"
proof (cases "prefix (js ''xml'') s")
  case True
  then obtain r where "s = js ''xml'' @ r" by (auto simp: prefix_def)
  moreover have "length (js ''xml'') = 3" by (simp add: js_def)
  ultimately show ?thesis by (simp add: strip_tag_def)
next
  case False
  then show ?thesis by (simp add: strip_tag_def)
qed

lemma interior_length_Some:
  "interior_length body = Some n \<Longrightarrow>
   n \<le> length body \<and> closes (drop n body) \<and> (\<forall>k<n. \<not> closes (drop k body))"
proof (induction body arbitrary: n)
  case Nil
  then show ?case by simp
next
  case (Cons x xs)
  show ?case
  proof (cases "closes (x # xs)")
    case True
    with Cons.prems show ?thesis by simp
  next
    case False
    with Cons.prems obtain m where m: "interior_length xs = Some m" and n: "n = Suc m"
      by auto
    have ih: "m \<le> length xs \<and> closes (drop m xs) \<and> (\<forall>k<m. \<not> closes (drop k xs))"
      using Cons.IH [OF m] .
    have "\<not> closes (drop k (x # xs))" if "k < n" for k
      using that False ih n by (cases k) auto
    with ih n show ?thesis by simp
  qed
qed

lemma closes_interior_ex: "closes (drop k body) \<Longrightarrow> interior_length body \<noteq> None"
proof (induction body arbitrary: k)
  case Nil
  then show ?case by (simp add: closes_Nil)
next
  case (Cons x xs)
  show ?case
  proof (cases "closes (x # xs)")
    case True
    then show ?thesis by simp
  next
    case False
    with Cons.prems obtain j where "k = Suc j"
      by (cases k) auto
    with Cons.prems have "closes (drop j xs)" by simp
    then have "interior_length xs \<noteq> None" by (rule Cons.IH)
    with False show ?thesis by simp
  qed
qed

lemma closes_split:
  "closes s \<Longrightarrow> \<exists>ws post. s = ws @ fence @ post \<and> list_all is_space ws \<and>
     dropWhile is_space s = fence @ post"
proof -
  assume "closes s"
  then obtain post where "dropWhile is_space s = fence @ post"
    by (auto simp: closes_def prefix_def)
  moreover have "s = takeWhile is_space s @ dropWhile is_space s" by simp
  moreover have "list_all is_space (takeWhile is_space s)"
    by (simp add: list_all_iff) (meson set_takeWhileD)
  ultimately show ?thesis by metis
qed

lemma block_at_shape:
  assumes "block_at s = Some (blk, inner)"
  shows "\<exists>tag ws1 ws2 post. s = blk @ post \<and> blk = fence @ tag @ ws1 @ inner @ ws2 @ fence \<and>
    (tag = [] \<or> tag = js ''xml'') \<and> list_all is_space ws1 \<and> list_all is_space ws2 \<and>
    (inner \<noteq> [] \<longrightarrow> \<not> is_space (hd inner) \<and> \<not> is_space (last inner))"
proof -
  have pre: "prefix fence s"
    using assms by (simp add: block_at_def split: if_splits)
  then obtain s1 where s: "s = fence @ s1" by (auto simp: prefix_def)
  have len: "length fence = 3" by (simp add: fence_eq)
  have d3: "drop 3 s = s1" using s len by simp
  define body where "body = dropWhile is_space (strip_tag s1)"
  define ws1 where "ws1 = takeWhile is_space (strip_tag s1)"
  obtain tag where tag: "s1 = tag @ strip_tag s1" "tag = [] \<or> tag = js ''xml''"
    using strip_tag_split [of s1] by blast
  have split: "strip_tag s1 = ws1 @ body"
    by (simp add: ws1_def body_def)
  have sp1: "list_all is_space ws1"
    by (simp add: ws1_def list_all_iff) (meson set_takeWhileD)
  obtain n where n: "interior_length body = Some n" and inner: "inner = take n body"
    and blk: "blk = take (length s - length (drop 3 (dropWhile is_space (drop n body)))) s"
    using assms pre by (auto simp: block_at_def d3 body_def Let_def split: option.splits)
  have nb: "n \<le> length body" and cl: "closes (drop n body)"
    and mn: "\<forall>k<n. \<not> closes (drop k body)"
    using interior_length_Some [OF n] by simp_all
  obtain ws2 post where rest: "drop n body = ws2 @ fence @ post" and sp2: "list_all is_space ws2"
    and dw: "dropWhile is_space (drop n body) = fence @ post"
    using closes_split [OF cl] by blast
  have body: "body = inner @ ws2 @ fence @ post"
    using rest inner append_take_drop_id [of n body] by simp
  have "drop 3 (dropWhile is_space (drop n body)) = post"
    using dw len by simp
  moreover have whole: "s = (fence @ tag @ ws1 @ inner @ ws2 @ fence) @ post"
    using s tag(1) split body by simp
  ultimately have b: "blk = fence @ tag @ ws1 @ inner @ ws2 @ fence"
    unfolding blk by simp
  have ends: "\<not> is_space (hd inner) \<and> \<not> is_space (last inner)" if ne: "inner \<noteq> []"
  proof
    have "body \<noteq> []" using ne inner by auto
    then have "\<not> is_space (hd body)"
      unfolding body_def by (rule hd_dropWhile)
    moreover have "hd inner = hd body"
      using ne body by simp
    ultimately show "\<not> is_space (hd inner)" by simp
    have n0: "0 < n" using ne inner by (cases n) auto
    then have "\<not> closes (drop (n - 1) body)" using mn by simp
    moreover have "drop (n - 1) body = last inner # drop n body"
    proof -
      have "length inner = n" using inner nb by simp
      then have "drop (n - 1) inner = [last inner]"
        using ne by (metis append_butlast_last_id append_eq_conv_conj length_butlast)
      moreover have "drop (n - 1) body = drop (n - 1) inner @ drop n body"
        using body rest \<open>length inner = n\<close> n0 by simp
      ultimately show ?thesis by simp
    qed
    ultimately show "\<not> is_space (last inner)"
      using cl by (auto simp: closes_space)
  qed
  show ?thesis
    using whole b tag(2) sp1 sp2 ends by blast
qed

lemma fenced_block_shape:
  "fenced_block t = Some (blk, inner) \<Longrightarrow>
   \<exists>pre tag ws1 ws2 post. t = pre @ blk @ post \<and> blk = fence @ tag @ ws1 @ inner @ ws2 @ fence \<and>
     (tag = [] \<or> tag = js ''xml'') \<and> list_all is_space ws1 \<and> list_all is_space ws2 \<and>
     (inner \<noteq> [] \<longrightarrow> \<not> is_space (hd inner) \<and> \<not> is_space (last inner))"
proof (induction t)
  case Nil
  then show ?case by simp
next
  case (Cons x xs)
  show ?case
  proof (cases "block_at (x # xs)")
    case None
    with Cons.prems have "fenced_block xs = Some (blk, inner)" by simp
    then obtain pre tag ws1 ws2 post where "xs = pre @ blk @ post"
      and rest: "blk = fence @ tag @ ws1 @ inner @ ws2 @ fence"
      "tag = [] \<or> tag = js ''xml''" "list_all is_space ws1" "list_all is_space ws2"
      "inner \<noteq> [] \<longrightarrow> \<not> is_space (hd inner) \<and> \<not> is_space (last inner)"
      using Cons.IH by blast
    then have "x # xs = (x # pre) @ blk @ post" by simp
    with rest show ?thesis by blast
  next
    case (Some b)
    with Cons.prems have "block_at (x # xs) = Some (blk, inner)" by simp
    then obtain tag ws1 ws2 post where "x # xs = blk @ post"
      and rest: "blk = fence @ tag @ ws1 @ inner @ ws2 @ fence"
      "tag = [] \<or> tag = js ''xml''" "list_all is_space ws1" "list_all is_space ws2"
      "inner \<noteq> [] \<longrightarrow> \<not> is_space (hd inner) \<and> \<not> is_space (last inner)"
      using block_at_shape by blast
    then have "x # xs = [] @ blk @ post" by simp
    with rest show ?thesis by blast
  qed
qed

lemma xml_before_fence:
  assumes "prefix (js ''xml'') (mid @ fence @ after)"
  shows "\<exists>m. mid = js ''xml'' @ m"
proof -
  have "\<exists>a b c m. mid = a # b # c # m"
  proof (rule ccontr)
    assume "\<not> ?thesis"
    then consider "mid = []" | a where "mid = [a]" | a b where "mid = [a, b]"
      by (metis list.exhaust)
    then show False
      using assms by cases (simp_all add: xml_eq fence_eq)
  qed
  then show ?thesis
    using assms by (auto simp: xml_eq)
qed

lemma block_at_fences: "block_at (fence @ mid @ fence @ after) \<noteq> None"
proof -
  define s where "s = fence @ mid @ fence @ after"
  have len: "length fence = 3" by (simp add: fence_eq)
  have pre: "prefix fence s" by (simp add: s_def)
  have d3: "drop 3 s = mid @ fence @ after" using len by (simp add: s_def)
  obtain m where m: "strip_tag (mid @ fence @ after) = m @ fence @ after"
  proof (cases "prefix (js ''xml'') (mid @ fence @ after)")
    case True
    then obtain m' where "mid = js ''xml'' @ m'" using xml_before_fence by blast
    moreover have "length (js ''xml'') = 3" by (simp add: js_def)
    ultimately have "strip_tag (mid @ fence @ after) = m' @ fence @ after"
      using True by (simp add: strip_tag_def)
    then show ?thesis by (rule that)
  next
    case False
    then have "strip_tag (mid @ fence @ after) = mid @ fence @ after"
      by (simp add: strip_tag_def)
    then show ?thesis by (rule that)
  qed
  have tick: "dropWhile is_space (fence @ after) = fence @ after"
    using not_space_tick by (simp add: fence_eq)
  have "dropWhile is_space (m @ fence @ after) = dropWhile is_space m @ fence @ after"
    using tick by (simp add: dropWhile_append)
  then have "closes (drop (length (dropWhile is_space m)) (dropWhile is_space (m @ fence @ after)))"
    using tick by (simp add: closes_def)
  then have "interior_length (dropWhile is_space (m @ fence @ after)) \<noteq> None"
    by (rule closes_interior_ex)
  then have "block_at s \<noteq> None"
    by (auto simp: block_at_def pre d3 m Let_def)
  then show ?thesis
    unfolding s_def .
qed

lemma fenced_block_append: "fenced_block s \<noteq> None \<Longrightarrow> fenced_block (pre @ s) \<noteq> None"
  by (induction pre) (auto split: option.splits)

lemma fenced_block_None_iff:
  "fenced_block t = None \<longleftrightarrow> \<not> (\<exists>pre mid post. t = pre @ fence @ mid @ fence @ post)"
proof
  assume none: "fenced_block t = None"
  show "\<not> (\<exists>pre mid post. t = pre @ fence @ mid @ fence @ post)"
  proof
    assume "\<exists>pre mid post. t = pre @ fence @ mid @ fence @ post"
    then obtain pre mid post where t: "t = pre @ fence @ mid @ fence @ post" by blast
    have "fence @ mid @ fence @ post \<noteq> []" by (simp add: fence_eq)
    then obtain x xs where c: "fence @ mid @ fence @ post = x # xs"
      by (cases "fence @ mid @ fence @ post") auto
    have "block_at (x # xs) \<noteq> None"
      using block_at_fences [of mid post] c by simp
    then have "fenced_block (fence @ mid @ fence @ post) \<noteq> None"
      unfolding c by (auto split: option.splits)
    then have "fenced_block t \<noteq> None"
      unfolding t by (rule fenced_block_append)
    with none show False by simp
  qed
next
  assume no: "\<not> (\<exists>pre mid post. t = pre @ fence @ mid @ fence @ post)"
  show "fenced_block t = None"
  proof (rule ccontr)
    assume "fenced_block t \<noteq> None"
    then obtain blk inner where "fenced_block t = Some (blk, inner)" by auto
    then obtain pre tag ws1 ws2 post where "t = pre @ blk @ post"
      and "blk = fence @ tag @ ws1 @ inner @ ws2 @ fence"
      using fenced_block_shape by blast
    then have "t = pre @ fence @ (tag @ ws1 @ inner @ ws2) @ fence @ post" by simp
    with no show False by blast
  qed
qed


lemma last_occurrence_ex:
  "prefix pat (drop k u) \<Longrightarrow> k \<le> length u \<Longrightarrow> last_occurrence pat u \<noteq> None"
proof (induction u arbitrary: k)
  case Nil
  then show ?case by simp
next
  case (Cons x xs)
  show ?case
  proof (cases k)
    case 0
    with Cons.prems show ?thesis by (simp split: option.splits)
  next
    case (Suc j)
    with Cons.prems have "prefix pat (drop j xs)" "j \<le> length xs" by simp_all
    then have "last_occurrence pat xs \<noteq> None" by (rule Cons.IH)
    then show ?thesis by (auto split: option.splits)
  qed
qed

lemma last_occurrence_Some:
  "last_occurrence pat u = Some n \<Longrightarrow>
   prefix pat (drop n u) \<and> (\<forall>k. n < k \<and> k \<le> length u \<longrightarrow> \<not> prefix pat (drop k u))"
proof (induction u arbitrary: n)
  case Nil
  then show ?case by (simp split: if_splits)
next
  case (Cons x xs)
  show ?case
  proof (cases "last_occurrence pat xs")
    case None
    have no: "\<not> prefix pat (drop j xs)" if "j \<le> length xs" for j
      using last_occurrence_ex [of pat j xs] that None by blast
    from None Cons.prems have n: "n = 0" and p: "prefix pat (x # xs)"
      by (auto split: if_splits)
    have "\<not> prefix pat (drop k (x # xs))" if "0 < k" "k \<le> length (x # xs)" for k
      using that no [of "k - 1"] by (cases k) auto
    with n p show ?thesis by simp
  next
    case (Some m)
    with Cons.prems have n: "n = Suc m" by simp
    have ih: "prefix pat (drop m xs) \<and> (\<forall>k. m < k \<and> k \<le> length xs \<longrightarrow> \<not> prefix pat (drop k xs))"
      using Cons.IH [OF Some] .
    have "\<not> prefix pat (drop k (x # xs))" if "n < k" "k \<le> length (x # xs)" for k
      using that ih n by (cases k) auto
    with ih n show ?thesis by simp
  qed
qed

lemma span_at_shape:
  assumes "span_at s = Some sp"
  shows "\<exists>mid rest. s = sp @ rest \<and> sp = js ''<?xml'' @ mid @ js ''</jmeterTestPlan>'' \<and>
    \<not> (\<exists>a b. rest = a @ js ''</jmeterTestPlan>'' @ b)"
proof -
  define close where "close = js ''</jmeterTestPlan>''"
  have len: "length (js ''<?xml'') = 5" "length close = 17"
    by (simp_all add: js_def close_def)
  have pre: "prefix (js ''<?xml'') s"
    using assms by (simp add: span_at_def split: if_splits)
  then obtain u where s: "s = js ''<?xml'' @ u"
    by (auto simp: prefix_def)
  have d5: "drop 5 s = u" using s len by simp
  from assms obtain n where n: "last_occurrence close u = Some n"
    and sp: "sp = take (5 + n + 17) s"
    by (auto simp: span_at_def pre d5 close_def)
  have p: "prefix close (drop n u)"
    and last: "\<forall>k. n < k \<and> k \<le> length u \<longrightarrow> \<not> prefix close (drop k u)"
    using last_occurrence_Some [OF n] by simp_all
  have nb: "n + 17 \<le> length u"
    using last_occurrence_bound [OF n] len by simp
  from p obtain rest where rest: "drop n u = close @ rest"
    by (auto simp: prefix_def)
  have u: "u = take n u @ close @ rest"
    using rest append_take_drop_id [of n u] by simp
  have ln: "length (take n u) = n" using nb by simp
  have whole: "s = (js ''<?xml'' @ take n u @ close) @ rest"
    using s u by simp
  have "length (js ''<?xml'' @ take n u @ close) = 5 + n + 17"
    using len ln by simp
  then have "take (5 + n + 17) s = js ''<?xml'' @ take n u @ close"
    using whole by (metis append_eq_conv_conj)
  then have shape: "sp = js ''<?xml'' @ take n u @ close"
    using sp by simp
  have "\<not> (\<exists>a b. rest = a @ close @ b)"
  proof
    assume "\<exists>a b. rest = a @ close @ b"
    then obtain a b where ab: "rest = a @ close @ b" by blast
    have "u = (take n u @ close @ a) @ close @ b"
      using u ab by simp
    then have "drop (n + 17 + length a) u = close @ b"
      using ln len by (metis append_eq_conv_conj length_append add.assoc)
    then have "prefix close (drop (n + 17 + length a) u)" by simp
    moreover have "n + 17 + length a \<le> length u"
      using \<open>u = (take n u @ close @ a) @ close @ b\<close> ln len
      by (metis add.assoc le_add1 length_append)
    ultimately show False using last by auto
  qed
  with whole shape show ?thesis
    unfolding close_def by blast
qed

lemma prolog_span_shape:
  "prolog_span t = Some sp \<Longrightarrow>
   \<exists>pre mid rest. t = pre @ sp @ rest \<and> sp = js ''<?xml'' @ mid @ js ''</jmeterTestPlan>'' \<and>
     \<not> (\<exists>a b. rest = a @ js ''</jmeterTestPlan>'' @ b)"
proof (induction t)
  case Nil
  then show ?case by simp
next
  case (Cons x xs)
  show ?case
  proof (cases "span_at (x # xs)")
    case None
    with Cons.prems have "prolog_span xs = Some sp" by simp
    then obtain pre mid rest where "xs = pre @ sp @ rest"
      and r: "sp = js ''<?xml'' @ mid @ js ''</jmeterTestPlan>''"
      "\<not> (\<exists>a b. rest = a @ js ''</jmeterTestPlan>'' @ b)"
      using Cons.IH by blast
    then have "x # xs = (x # pre) @ sp @ rest" by simp
    with r show ?thesis by blast
  next
    case (Some b)
    with Cons.prems have "span_at (x # xs) = Some sp" by simp
    then obtain mid rest where "x # xs = sp @ rest"
      and r: "sp = js ''<?xml'' @ mid @ js ''</jmeterTestPlan>''"
      "\<not> (\<exists>a b. rest = a @ js ''</jmeterTestPlan>'' @ b)"
      using span_at_shape by blast
    then have "x # xs = [] @ sp @ rest" by simp
    with r show ?thesis by blast
  qed
qed

lemma span_at_tags: "span_at (js ''<?xml'' @ mid @ js ''</jmeterTestPlan>'' @ rest) \<noteq> None"
proof -
  define s where "s = js ''<?xml'' @ mid @ js ''</jmeterTestPlan>'' @ rest"
  have len: "length (js ''<?xml'') = 5" by (simp add: js_def)
  have pre: "prefix (js ''<?xml'') s" by (simp add: s_def)
  have d5: "drop 5 s = mid @ js ''</jmeterTestPlan>'' @ rest"
    using len by (simp add: s_def)
  have "prefix (js ''</jmeterTestPlan>'') (drop (length mid) (drop 5 s))"
    by (simp add: d5)
  moreover have "length mid \<le> length (drop 5 s)"
    by (simp add: d5)
  ultimately have "last_occurrence (js ''</jmeterTestPlan>'') (drop 5 s) \<noteq> None"
    by (rule last_occurrence_ex)
  then have "span_at s \<noteq> None"
    by (auto simp: span_at_def pre)
  then show ?thesis unfolding s_def .
qed

lemma prolog_span_append: "prolog_span s \<noteq> None \<Longrightarrow> prolog_span (pre @ s) \<noteq> None"
  by (induction pre) (auto split: option.splits)

lemma prolog_span_None_iff:
  "prolog_span t = None \<longleftrightarrow>
   \<not> (\<exists>pre mid rest. t = pre @ js ''<?xml'' @ mid @ js ''</jmeterTestPlan>'' @ rest)"
proof
  assume none: "prolog_span t = None"
  show "\<not> (\<exists>pre mid rest. t = pre @ js ''<?xml'' @ mid @ js ''</jmeterTestPlan>'' @ rest)"
  proof
    assume "\<exists>pre mid rest. t = pre @ js ''<?xml'' @ mid @ js ''</jmeterTestPlan>'' @ rest"
    then obtain pre mid rest
      where t: "t = pre @ js ''<?xml'' @ mid @ js ''</jmeterTestPlan>'' @ rest" by blast
    define s where "s = js ''<?xml'' @ mid @ js ''</jmeterTestPlan>'' @ rest"
    have "s \<noteq> []" by (simp add: s_def js_def)
    then obtain x xs where c: "s = x # xs" by (cases s) auto
    have "span_at s \<noteq> None"
      unfolding s_def by (rule span_at_tags)
    then have "prolog_span s \<noteq> None"
      unfolding c by (auto split: option.splits)
    then have "prolog_span (pre @ s) \<noteq> None"
      by (rule prolog_span_append)
    with none t show False by (simp add: s_def)
  qed
next
  assume no: "\<not> (\<exists>pre mid rest. t = pre @ js ''<?xml'' @ mid @ js ''</jmeterTestPlan>'' @ rest)"
  show "prolog_span t = None"
  proof (rule ccontr)
    assume "prolog_span t \<noteq> None"
    then obtain sp where "prolog_span t = Some sp" by auto
    then obtain pre mid rest where "t = pre @ sp @ rest"
      and "sp = js ''<?xml'' @ mid @ js ''</jmeterTestPlan>''"
      using prolog_span_shape by blast
    then have "t = pre @ js ''<?xml'' @ mid @ js ''</jmeterTestPlan>'' @ rest" by simp
    with no show False by blast
  qed
qed

section \<open>Extraction of the candidate artifact\<close>

lemma text_of_raw:
  "(if truthy (J (JStr t)) then
      (case J (JStr t) of
         J (JStr aiText) \<Rightarrow>
           (case (case js_match fence_re aiText of Some m \<Rightarrow> Some m | None \<Rightarrow> js_match span_re aiText) of
              Some xmlMatch \<Rightarrow> ret (pick_group xmlMatch)
            | None \<Rightarrow> ret aiText)
       | _ \<Rightarrow> throw (Native NotCallable))
    else ret []) = (ret (spec_candidate t) :: jstring comp)"
proof (cases "t = []")
  case True
  then show ?thesis by (simp add: spec_candidate_Nil)
next
  case False
  then show ?thesis by (simp add: xmlMatch_spec)
qed

lemma google_text_raw:
  "google_raw d = ret (J (JStr t)) \<Longrightarrow> google_text d = ret (spec_candidate t)"
  unfolding google_text_def by (simp only: bind_ret text_of_raw)

lemma openai_text_raw:
  "openai_raw d = ret (J (JStr t)) \<Longrightarrow> openai_text d = ret (spec_candidate t)"
  unfolding openai_text_def by (simp only: bind_ret text_of_raw)

lemma sample_answer_raw:
  "google_raw (sample_answer t) = ret (J (JStr t))"
  "openai_raw (sample_answer t) = ret (J (JStr t))"
  by (simp_all add: google_raw_def openai_raw_def sample_answer_def get_prop_def bind_ret
      opt_prop_def js_def)

lemma ret_inject: "ret x = ret y \<longleftrightarrow> x = y"
  by (simp add: ret_def)

text \<open>
  C1, as amended. For the raw text \<open>t\<close> of a provider's answer, read from the answer of
  Google or of OpenAI, the candidate artifact is: the interior of the first fenced code
  block (optionally tagged \<^verbatim>\<open>xml\<close>) when that interior is not empty, and the whole block
  with its fences when it is empty; otherwise the span from the first XML prolog through
  the last closing \<^verbatim>\<open>jmeterTestPlan\<close> tag; otherwise the whole text. Both providers follow
  the same rule. What \<open>fenced_block\<close> and \<open>prolog_span\<close> find is stated in
  \<open>fenced_block_shape\<close>, \<open>fenced_block_None_iff\<close>, \<open>prolog_span_shape\<close> and
  \<open>prolog_span_None_iff\<close>.
\<close>

theorem extraction_rule:
  "(google_raw d = ret (J (JStr t)) \<longrightarrow> google_text d = ret (spec_candidate t)) \<and>
   (openai_raw d = ret (J (JStr t)) \<longrightarrow> openai_text d = ret (spec_candidate t))"
  by (simp add: google_text_raw openai_text_raw)

theorem extraction_rule_witness:
  "google_raw (sample_answer fenced_plan) = ret (J (JStr fenced_plan)) \<and>
   openai_raw (sample_answer fenced_plan) = ret (J (JStr fenced_plan)) \<and>
   google_text (sample_answer fenced_plan) = ret (js ''<jmeterTestPlan></jmeterTestPlan>'') \<and>
   openai_text (sample_answer fenced_plan) = ret (js ''<jmeterTestPlan></jmeterTestPlan>'')"
proof -
  have cand: "spec_candidate fenced_plan = js ''<jmeterTestPlan></jmeterTestPlan>''"
    by code_simp
  show ?thesis
    using extraction_rule [of "sample_answer fenced_plan" fenced_plan]
    by (simp only: sample_answer_raw cand simp_thms)
qed

text \<open>
  C1 as the specification states it takes the interior of the fenced block whatever it is.
  On the text of six backticks the interior is empty, and the candidate of the code is
  the six backticks.
\<close>

theorem extraction_rule_counterexample:
  "google_raw (sample_answer (js ''``````'')) = ret (J (JStr (js ''``````''))) \<and>
   google_text (sample_answer (js ''``````'')) \<noteq> ret (claimed_candidate (js ''``````''))"
proof -
  have "spec_candidate (js ''``````'') = js ''``````''"
    by code_simp
  moreover have "claimed_candidate (js ''``````'') = []"
    by code_simp
  moreover have "js ''``````'' \<noteq> []"
    by (simp add: js_def)
  ultimately show ?thesis
    using google_text_raw [OF sample_answer_raw(1), of "js ''``````''"]
    by (simp only: sample_answer_raw ret_inject simp_thms)
qed

section \<open>A fenced block with an empty interior\<close>

lemma interior_length_take:
  "interior_length body = Some n \<Longrightarrow> take n body = [] \<Longrightarrow> closes body"
proof (cases body)
  case Nil
  assume "interior_length body = Some n"
  with Nil show ?thesis by simp
next
  case (Cons x xs)
  assume "interior_length body = Some n" "take n body = []"
  with Cons show ?thesis by (auto split: if_splits)
qed

lemma block_at_empty_shape:
  assumes "block_at s = Some (blk, [])"
  shows "\<exists>tag ws. blk = fence @ tag @ ws @ fence \<and> (tag = [] \<or> tag = js ''xml'') \<and>
    list_all is_space ws"
proof -
  have pre: "prefix fence s"
    using assms by (simp add: block_at_def split: if_splits)
  then obtain s1 where s: "s = fence @ s1" by (auto simp: prefix_def)
  have len: "length fence = 3" by (simp add: fence_eq)
  have d3: "drop 3 s = s1" using s len by simp
  define body where "body = dropWhile is_space (strip_tag s1)"
  define ws where "ws = takeWhile is_space (strip_tag s1)"
  obtain tag where tag: "s1 = tag @ strip_tag s1" "tag = [] \<or> tag = js ''xml''"
    using strip_tag_split [of s1] by blast
  have split: "strip_tag s1 = ws @ body"
    by (simp add: ws_def body_def)
  obtain n where n: "interior_length body = Some n" "take n body = []"
    and blk: "blk = take (length s - length (drop 3 (dropWhile is_space (drop n body)))) s"
    using assms pre by (auto simp: block_at_def d3 body_def Let_def split: option.splits)
  have "closes body" using n by (rule interior_length_take)
  moreover have "dropWhile is_space body = body"
    by (simp add: body_def)
  ultimately obtain rest where rest: "body = fence @ rest"
    by (auto simp: closes_def prefix_def)
  have n0: "drop n body = body"
    using n(2) rest by (cases n) (simp_all add: fence_eq)
  have "drop 3 (dropWhile is_space (drop n body)) = drop 3 body"
    unfolding n0 \<open>dropWhile is_space body = body\<close> ..
  also have "\<dots> = rest"
    using rest len by simp
  finally have "drop 3 (dropWhile is_space (drop n body)) = rest" .
  moreover have "s = (fence @ tag @ ws @ fence) @ rest"
    using s tag(1) split rest by simp
  ultimately have "blk = fence @ tag @ ws @ fence"
    unfolding blk by simp
  moreover have "list_all is_space ws"
    by (simp add: ws_def list_all_iff) (meson set_takeWhileD)
  ultimately show ?thesis using tag(2) by blast
qed

lemma fenced_block_empty_shape:
  "fenced_block t = Some (blk, []) \<Longrightarrow>
   \<exists>tag ws. blk = fence @ tag @ ws @ fence \<and> (tag = [] \<or> tag = js ''xml'') \<and>
     list_all is_space ws"
  by (induction t) (auto split: option.splits dest: block_at_empty_shape)

lemma spec_candidate_empty: "fenced_block t = Some (blk, []) \<Longrightarrow> spec_candidate t = blk"
  by (simp add: spec_candidate_def)

text \<open>
  C10. When the first fenced code block of the raw text has an empty interior, the
  candidate artifact of either provider is the whole block: a fence, the optional tag
  \<^verbatim>\<open>xml\<close>, white space only, and the closing fence.
\<close>

theorem empty_interior_keeps_block:
  assumes "fenced_block t = Some (blk, [])"
  shows "(google_raw d = ret (J (JStr t)) \<longrightarrow> google_text d = ret blk) \<and>
    (openai_raw d = ret (J (JStr t)) \<longrightarrow> openai_text d = ret blk) \<and>
    (\<exists>tag ws. blk = fence @ tag @ ws @ fence \<and> (tag = [] \<or> tag = js ''xml'') \<and>
       list_all is_space ws)"
  using assms fenced_block_empty_shape [OF assms]
  by (auto simp: google_text_raw openai_text_raw spec_candidate_empty)

theorem empty_interior_keeps_block_witness:
  "fenced_block empty_block = Some (empty_block, []) \<and>
   google_raw (sample_answer empty_block) = ret (J (JStr empty_block)) \<and>
   openai_raw (sample_answer empty_block) = ret (J (JStr empty_block)) \<and>
   google_text (sample_answer empty_block) = ret empty_block \<and>
   openai_text (sample_answer empty_block) = ret empty_block"
proof -
  have fb: "fenced_block empty_block = Some (empty_block, [])"
    by code_simp
  show ?thesis
    using empty_interior_keeps_block [OF fb, of "sample_answer empty_block"]
    by (simp only: fb sample_answer_raw simp_thms)
qed

section \<open>Computations\<close>

lemma bind_throw: "bind (throw e) f = throw e"
  by (simp add: bind_def throw_def)

lemma bind_Inl: "bind (evs, Inl e) f = (evs, Inl e)"
  by (simp add: bind_def)

lemma bind_Inr: "bind (evs, Inr x) f = (evs @ fst (f x), snd (f x))"
  by (simp add: bind_def)

lemma bind_assoc: "bind (bind m f) g = bind m (\<lambda>x. bind (f x) g)"
  by (cases m) (auto simp: bind_def split: sum.splits)

lemma bind_emit: "bind (emit ev) f = (ev # fst (f ()), snd (f ()))"
  by (simp add: bind_def emit_def)

lemma bind_Inr_iff:
  "bind m f = (evs, Inr y) \<longleftrightarrow>
     (\<exists>e1 x e2. m = (e1, Inr x) \<and> f x = (e2, Inr y) \<and> evs = e1 @ e2)"
  by (cases m; cases "snd m") (auto simp: bind_def prod_eq_iff)

section \<open>Preflight and headers\<close>



section \<open>Validation and response\<close>

lemma js_includes_sublist: "js_includes x pat \<longleftrightarrow> sublist pat x"
  by (induction x) (auto simp: sublist_Cons_right)

lemma finish_Inr:
  assumes "finish pf c = (evs, Inr resp)"
  shows "headers resp = json_headers \<and> status resp = 200 \<and> valid_jmx (jmxContent c) \<and>
    (\<exists>m sm. content resp = Success (jmxContent c) m sm)"
proof (cases "valid_jmx (jmxContent c)")
  case False
  with assms show ?thesis by (simp add: finish_def throw_def)
next
  case True
  define R where "R = (\<lambda>s. \<lparr>status = 200, headers = json_headers,
               content = Success (jmxContent c)
                 \<lparr>provider = (if is_google (aiProvider (cand_fields c))
                     then js ''Google AI Studio'' else js ''OpenAI''),
                  generatedByAI = True,
                  testPlanName = planName (cand_fields c)\<rparr> s\<rparr>)"
  define B where "B = bind (make_summary pf (cand_entries c)) (\<lambda>s. ret (R s))"
  have "finish pf c = (Log LogSuccess # fst B, snd B)"
    using True by (simp add: finish_def bind_emit B_def R_def)
  with assms have "B = (fst B, Inr resp)"
    by (simp add: prod_eq_iff)
  then obtain s where "resp = R s"
    unfolding B_def bind_Inr_iff by (auto simp: ret_def)
  with True show ?thesis by (simp add: R_def)
qed

lemma finish_invalid:
  "\<not> valid_jmx (jmxContent c) \<Longrightarrow>
   finish pf c = ([], Inl (Error (js ''AI did not generate valid JMeter XML content'')))"
  by (simp add: finish_def throw_def)



text \<open>
  C2. When the handler reaches line 185 with a candidate artifact: if the candidate is
  empty or does not contain \<^verbatim>\<open><jmeterTestPlan\<close>, the response has status 500 and the
  message \<^verbatim>\<open>AI did not generate valid JMeter XML content\<close>; and a response of status 200
  is given only for a candidate that is not empty and contains \<^verbatim>\<open><jmeterTestPlan\<close>, and
  then carries that candidate as \<^verbatim>\<open>jmxContent\<close>.
\<close>

theorem validation_rule:
  assumes "req_method req \<noteq> js ''OPTIONS''" and "prepare pf ev net req = (evs, Inr c)"
  shows "(\<not> (jmxContent c \<noteq> [] \<and> sublist (js ''<jmeterTestPlan'') (jmxContent c)) \<longrightarrow>
      handler pf ev net req =
        (evs @ [Log (LogHandlerError (Error (js ''AI did not generate valid JMeter XML content'')))],
         \<lparr>status = 500, headers = json_headers,
          content = Failure (js ''AI did not generate valid JMeter XML content'')
            (stack_trace pf (Error (js ''AI did not generate valid JMeter XML content'')))\<rparr>)) \<and>
    (status (snd (handler pf ev net req)) = 200 \<longrightarrow>
      jmxContent c \<noteq> [] \<and> sublist (js ''<jmeterTestPlan'') (jmxContent c) \<and>
      (\<exists>m sm. content (snd (handler pf ev net req)) = Success (jmxContent c) m sm))"
proof -
  have valid: "valid_jmx (jmxContent c) \<longleftrightarrow>
      jmxContent c \<noteq> [] \<and> sublist (js ''<jmeterTestPlan'') (jmxContent c)"
    by (simp add: valid_jmx_def js_includes_sublist)
  have b: "bind (prepare pf ev net req) (finish pf) = (evs @ fst (finish pf c), snd (finish pf c))"
    by (simp add: assms(2) bind_Inr)
  show ?thesis
  proof (cases "valid_jmx (jmxContent c)")
    case False
    then show ?thesis
      using assms(1) valid
      by (simp add: handler_def b finish_invalid error_response_def)
  next
    case True
    show ?thesis
    proof (cases "snd (finish pf c)")
      case (Inl e)
      then show ?thesis
        using assms(1) True valid by (simp add: handler_def b error_response_def)
    next
      case (Inr resp)
      then have "finish pf c = (fst (finish pf c), Inr resp)"
        by (simp add: prod_eq_iff)
      then have "\<exists>m sm. content resp = Success (jmxContent c) m sm"
        using finish_Inr by blast
      then show ?thesis
        using assms(1) True valid Inr by (simp add: handler_def b)
    qed
  qed
qed

section \<open>The stages of the handler\<close>

lemma parse_har_cases:
  "(\<exists>v. parse_har pf h = ret v) \<or> parse_har pf h = throw (Native BadJson)"
  by (cases "(pf, h)" rule: parse_har.cases) (auto split: option.splits)

lemma decode_Inr_iff:
  "decode pf fs = (evs, Inr d) \<longleftrightarrow>
     (\<exists>lg s. parse_har pf (harContent fs) = ret (dec_har d) \<and>
        \<not> nullish (dec_har d) \<and> lg = own (dec_har d) P_log \<and>
        \<not> nullish lg \<and> dec_entries d = own lg P_entries \<and>
        \<not> nullish (dec_entries d) \<and>
        to_string pf (own (dec_entries d) P_length) = Some s \<and> dec_fields d = fs \<and>
        evs = [Log LogProcessing, Log (LogFound s)])"
  using parse_har_cases [of pf "harContent fs"]
  unfolding decode_def
  by (cases d)
    (auto simp: bind_def ret_def throw_def emit_def get_prop_def template_def
      split: if_splits option.splits)

lemma decode_Inl:
  "decode pf fs = (evs, Inl e) \<Longrightarrow> evs = [Log LogProcessing]"
  using parse_har_cases [of pf "harContent fs"]
  unfolding decode_def
  by (auto simp: bind_def ret_def throw_def emit_def get_prop_def template_def
      split: if_splits option.splits)

lemma read_fields_cases:
  "(\<exists>fs. read_fields req = ret fs) \<or> (\<exists>e. read_fields req = throw e)"
  by (auto simp: read_fields_def split: option.splits json.splits)

lemma call_provider_cases:
  "call_provider pf ev net p prompt =
     (if (if is_google p then missing (GOOGLE_AI_API_KEY ev) else missing (OPENAI_API_KEY ev))
      then throw (Error (if is_google p then js ''Google AI API key not configured''
                         else js ''OpenAI API key not configured''))
      else ([Fetch (if is_google p then google_request pf (the (GOOGLE_AI_API_KEY ev)) prompt
                    else openai_request pf (the (OPENAI_API_KEY ev)) prompt)],
            net (if is_google p then google_request pf (the (GOOGLE_AI_API_KEY ev)) prompt
                    else openai_request pf (the (OPENAI_API_KEY ev)) prompt)))"
  by (simp add: call_provider_def fetch_def)


lemma prepare_decoded:
  assumes "read_fields req = ret fs" and "decode pf fs = (evs, Inr d)"
  shows "prepare pf ev net req = (evs @ fst (produce pf ev net d), snd (produce pf ev net d))"
  by (simp add: prepare_def assms bind_ret bind_Inr)

lemma handler_error:
  assumes "req_method req \<noteq> js ''OPTIONS''" and "prepare pf ev net req = (evs, Inl e)"
  shows "handler pf ev net req = (evs @ [Log (LogHandlerError e)], error_response pf e)"
  using assms by (simp add: handler_def bind_Inl)

section \<open>A missing key\<close>

text \<open>
  C6, as amended. For a request other than the preflight that selects a provider whose
  key is unset or empty, the handler makes no call to any provider and answers with
  status 500. The error it reports is that the key of that provider is not configured
  when the HAR document is read without error (lines 54 to 57, the conversion of
  \<^verbatim>\<open>entries.length\<close> to a string included), and the error of that reading otherwise.
\<close>

theorem missing_key:
  assumes "req_method req \<noteq> js ''OPTIONS''"
    and "read_fields req = ret fs"
    and "if is_google (aiProvider fs) then missing (GOOGLE_AI_API_KEY ev)
         else missing (OPENAI_API_KEY ev)"
  shows "(\<forall>out. Fetch out \<notin> set (fst (handler pf ev net req))) \<and>
    status (snd (handler pf ev net req)) = 500 \<and>
    (case snd (decode pf fs) of
       Inl e \<Rightarrow> content (snd (handler pf ev net req)) = Failure (message pf e) (stack_trace pf e)
     | Inr d \<Rightarrow>
         content (snd (handler pf ev net req)) =
           Failure
             (if is_google (aiProvider fs) then js ''Google AI API key not configured''
              else js ''OpenAI API key not configured'')
             (stack_trace pf (Error
               (if is_google (aiProvider fs) then js ''Google AI API key not configured''
                else js ''OpenAI API key not configured''))))"
proof (cases "snd (decode pf fs)")
  case (Inl e)
  then have dec: "decode pf fs = (fst (decode pf fs), Inl e)"
    by (simp add: prod_eq_iff)
  then have evs: "fst (decode pf fs) = [Log LogProcessing]"
    by (rule decode_Inl)
  have "prepare pf ev net req = ([Log LogProcessing], Inl e)"
    using dec by (simp add: prepare_def assms(2) bind_ret evs) (simp add: bind_def)
  then have "handler pf ev net req =
      ([Log LogProcessing] @ [Log (LogHandlerError e)], error_response pf e)"
    using assms(1) by (rule handler_error [rotated])
  then show ?thesis
    using Inl by (simp add: error_response_def)
next
  case (Inr d)
  define e where "e = Error (if is_google (aiProvider fs)
    then js ''Google AI API key not configured'' else js ''OpenAI API key not configured'')"
  have dec: "decode pf fs = (fst (decode pf fs), Inr d)"
    using Inr by (simp add: prod_eq_iff)
  then obtain s where fs: "dec_fields d = fs"
    and evs: "fst (decode pf fs) = [Log LogProcessing, Log (LogFound s)]"
    unfolding decode_Inr_iff by auto
  have "call_provider pf ev net (aiProvider fs) (jmxPrompt pf (dec_har d)) = throw e"
    using assms(3) by (simp add: call_provider_cases e_def)
  then have "produce pf ev net d = ([], Inl e)"
    by (simp add: produce_def fs bind_throw) (simp add: throw_def)
  then have "prepare pf ev net req = (fst (decode pf fs), Inl e)"
    using prepare_decoded [OF assms(2) dec] by simp
  then have "handler pf ev net req =
      (fst (decode pf fs) @ [Log (LogHandlerError e)], error_response pf e)"
    using assms(1) by (rule handler_error [rotated])
  then show ?thesis
    using Inr by (simp add: e_def error_response_def evs)
qed

section \<open>Effects of the stages\<close>

lemma pure_bind: "fst m = [] \<Longrightarrow> (\<And>x. fst (f x) = []) \<Longrightarrow> fst (bind m f) = []"
  by (simp add: bind_def split: sum.splits)

lemma pure_simps [simp]:
  "fst (ret x) = []" "fst (throw e) = []" "fst (get_prop v p) = []" "fst (template pf v) = []"
  by (simp_all add: ret_def throw_def get_prop_def template_def split: option.splits)

lemma pure_map_comp: "(\<And>x. fst (f x) = []) \<Longrightarrow> fst (map_comp f xs) = []"
  by (induction xs) (simp_all add: pure_bind)

lemma pure_google_text: "fst (google_text d) = []"
  unfolding google_text_def google_raw_def
  by (intro pure_bind) (auto split: jsval.splits json.splits option.splits)

lemma pure_openai_text: "fst (openai_text d) = []"
  unfolding openai_text_def openai_raw_def
  by (intro pure_bind) (auto split: jsval.splits json.splits option.splits)

lemma pure_entries_map: "(\<And>x. fst (f x) = []) \<Longrightarrow> fst (entries_map f v) = []"
  by (cases "(f, v)" rule: entries_map.cases) (simp_all add: pure_map_comp)

lemma pure_entry_hostname: "fst (entry_hostname pf e) = []"
  unfolding entry_hostname_def
  by (intro pure_bind) (auto split: option.splits)

lemma pure_entry_method: "fst (entry_method e) = []"
  unfolding entry_method_def by (intro pure_bind) auto

lemma pure_to_primitive: "fst (to_primitive pf v) = []"
  by (cases "(pf, v)" rule: to_primitive.cases) (simp_all add: pure_bind)

lemma pure_js_add: "fst (js_add pf a v) = []"
  by (cases a) (auto intro!: pure_bind simp: pure_to_primitive)

lemma pure_add_time: "fst (add_time pf a e) = []"
  unfolding add_time_def by (intro pure_bind) (simp_all add: pure_js_add)

lemma pure_reduce_comp: "(\<And>a x. fst (f a x) = []) \<Longrightarrow> fst (reduce_comp f z xs) = []"
  by (induction xs arbitrary: z) (simp_all add: pure_bind)

lemma pure_average: "fst (average pf v) = []"
  by (cases "(pf, v)" rule: average.cases)
    (simp_all add: pure_bind pure_reduce_comp pure_add_time)

lemma pure_make_summary: "fst (make_summary pf v) = []"
  unfolding make_summary_def
  by (intro pure_bind pure_entries_map pure_entry_hostname pure_entry_method pure_average) auto

text \<open>
  Lines 147 to 151 and 180 to 183 for an answer that is not a success. When the provider
  selection does not convert to a string, line 149 throws before it logs, the \<^verbatim>\<open>catch\<close>
  block throws again at line 181, and the error that leaves is the \<^verbatim>\<open>TypeError\<close>. When
  the body of the answer cannot be read, line 148 throws and the \<^verbatim>\<open>catch\<close> block wraps
  that error.
\<close>

lemma generate_refused:
  assumes "\<not> reply_ok r"
  shows "generate pf p r =
     (case to_string pf p of
        None \<Rightarrow> ([], Inl (Native NotPrimitive))
      | Some name \<Rightarrow>
          (case reply_body r of
             None \<Rightarrow>
               ([Log (LogGenerationFailed name (Native BodyRead))],
                Inl (Error (js ''Failed to generate JMX file using AI: '' @
                  native_message pf BodyRead)))
           | Some b \<Rightarrow>
               ([Log (LogApiError name b),
                 Log (LogGenerationFailed name
                   (Error (name @ js '' API error: '' @ reply_statusText r)))],
                Inl (Error (js ''Failed to generate JMX file using AI: '' @
                  name @ js '' API error: '' @ reply_statusText r)))))"
  using assms
  by (simp add: generate_def catch_def bind_def emit_def throw_def ret_def template_def
      read_text_def split: option.splits)

lemma generate_logs: "Fetch out \<notin> set (fst (generate pf p r))"
proof (cases "reply_ok r")
  case False
  then show ?thesis by (simp add: generate_refused split: option.splits)
next
  case True
  have t: "fst (if is_google p then google_text d else openai_text d) = []" for d
    by (simp add: pure_google_text pure_openai_text)
  show ?thesis
    using True t
    by (auto simp: generate_def catch_def bind_def emit_def throw_def ret_def template_def
        read_json_def read_text_def split: option.splits sum.splits)
qed

lemma finish_logs: "Fetch out \<notin> set (fst (finish pf c))"
proof -
  have "fst (bind (make_summary pf (cand_entries c)) (\<lambda>s. ret (R s))) = []" for R :: "summary \<Rightarrow> response"
    by (intro pure_bind pure_make_summary) simp
  then show ?thesis
    by (simp add: finish_def bind_emit)
qed


lemma fetch_bind:
  "Fetch out \<in> set (fst (bind m f)) \<Longrightarrow>
   Fetch out \<in> set (fst m) \<or> (\<exists>x. snd m = Inr x \<and> Fetch out \<in> set (fst (f x)))"
  by (auto simp: bind_def split: sum.splits)

lemma decode_logs: "Fetch out \<notin> set (fst (decode pf fs))"
proof (cases "snd (decode pf fs)")
  case (Inl e)
  then have "decode pf fs = (fst (decode pf fs), Inl e)" by (simp add: prod_eq_iff)
  then have "fst (decode pf fs) = [Log LogProcessing]" by (rule decode_Inl)
  then show ?thesis by simp
next
  case (Inr d)
  then have "decode pf fs = (fst (decode pf fs), Inr d)" by (simp add: prod_eq_iff)
  then obtain s where "fst (decode pf fs) = [Log LogProcessing, Log (LogFound s)]"
    unfolding decode_Inr_iff by auto
  then show ?thesis by simp
qed

lemma pure_read_fields: "fst (read_fields req) = []"
  using read_fields_cases [of req] by auto

lemma handler_events:
  "req_method req \<noteq> js ''OPTIONS'' \<Longrightarrow>
   fst (handler pf ev net req) =
     fst (bind (prepare pf ev net req) (finish pf)) @
     (case snd (bind (prepare pf ev net req) (finish pf)) of
        Inl e \<Rightarrow> [Log (LogHandlerError e)] | Inr resp \<Rightarrow> [])"
  by (cases "bind (prepare pf ev net req) (finish pf)")
    (auto simp: handler_def split: sum.splits)

lemma handler_fetch:
  assumes "Fetch out \<in> set (fst (handler pf ev net req))"
  shows "\<exists>fs e0 d. req_method req \<noteq> js ''OPTIONS'' \<and> read_fields req = ret fs \<and>
    decode pf fs = (e0, Inr d) \<and>
    call_provider pf ev net (aiProvider fs) (jmxPrompt pf (dec_har d)) = ([Fetch out], net out)"
proof -
  have m: "req_method req \<noteq> js ''OPTIONS''"
    using assms by (auto simp: handler_def)
  then have "Fetch out \<in> set (fst (bind (prepare pf ev net req) (finish pf)))"
    using assms by (auto simp: handler_events split: sum.splits)
  then have "Fetch out \<in> set (fst (prepare pf ev net req))"
    using finish_logs by (blast dest: fetch_bind)
  then have "Fetch out \<in> set (fst (read_fields req)) \<or>
      (\<exists>fs. snd (read_fields req) = Inr fs \<and>
        Fetch out \<in> set (fst (bind (decode pf fs) (produce pf ev net))))"
    unfolding prepare_def by (rule fetch_bind)
  then obtain fs where fs: "snd (read_fields req) = Inr fs"
    and 1: "Fetch out \<in> set (fst (bind (decode pf fs) (produce pf ev net)))"
    by (auto simp: pure_read_fields)
  have rf: "read_fields req = ret fs"
    using fs pure_read_fields [of req] by (simp add: ret_def prod_eq_iff)
  from 1 obtain d where d: "snd (decode pf fs) = Inr d"
    and 2: "Fetch out \<in> set (fst (produce pf ev net d))"
    using decode_logs by (blast dest: fetch_bind)
  have dec: "decode pf fs = (fst (decode pf fs), Inr d)"
    using d by (simp add: prod_eq_iff)
  then have dfs: "dec_fields d = fs"
    unfolding decode_Inr_iff by blast
  have "Fetch out \<in> set (fst (call_provider pf ev net (aiProvider fs) (jmxPrompt pf (dec_har d)))) \<or>
      (\<exists>r. Fetch out \<in> set (fst (bind (generate pf (aiProvider fs) r)
        (\<lambda>x. ret \<lparr>cand_fields = fs, cand_entries = dec_entries d, jmxContent = x\<rparr>))))"
    using fetch_bind [OF 2 [unfolded produce_def dfs]] by blast
  moreover have "Fetch out \<notin> set (fst (bind (generate pf (aiProvider fs) r)
        (\<lambda>x. ret \<lparr>cand_fields = fs, cand_entries = dec_entries d, jmxContent = x\<rparr>)))" for r
    using generate_logs [of out pf "aiProvider fs" r] by (auto dest: fetch_bind)
  ultimately have "Fetch out \<in> set (fst (call_provider pf ev net (aiProvider fs) (jmxPrompt pf (dec_har d))))"
    by blast
  then have "call_provider pf ev net (aiProvider fs) (jmxPrompt pf (dec_har d)) =
      ([Fetch out], net out)"
    by (auto simp: call_provider_cases split: if_splits)
  with m rf dec show ?thesis by blast
qed

lemma handler_generate_failed:
  assumes "req_method req \<noteq> js ''OPTIONS''"
    and "read_fields req = ret fs"
    and "decode pf fs = (e0, Inr d)"
    and "call_provider pf ev net (aiProvider fs) (jmxPrompt pf (dec_har d)) = ([Fetch out], Inr r)"
    and "generate pf (aiProvider fs) r = (e1, Inl e)"
  shows "handler pf ev net req =
    (e0 @ [Fetch out] @ e1 @ [Log (LogHandlerError e)], error_response pf e)"
proof -
  have fs: "dec_fields d = fs"
    using assms(3) unfolding decode_Inr_iff by blast
  have "produce pf ev net d = ([Fetch out] @ e1, Inl e)"
    by (simp add: produce_def fs assms(4) bind_Inr assms(5) bind_Inl)
  then have "prepare pf ev net req = (e0 @ [Fetch out] @ e1, Inl e)"
    using prepare_decoded [OF assms(2,3)] by simp
  then show ?thesis
    using handler_error [OF assms(1)] by simp
qed

text \<open>
  C7, as amended. When the trace of an invocation holds a call to a provider and the
  provider answers that call with a status that is not a success, the response has status
  500 and is an error, never an artifact. What the error says depends on two conversions.
  When the provider selection converts to a string and the body of the answer is read,
  the message is \<^verbatim>\<open>Failed to generate JMX file using AI: \<close> followed by the provider
  selection, \<^verbatim>\<open> API error: \<close> and the status text of the answer, and the body is in the
  log (line 149) and not in the response. When the body cannot be read, the message
  wraps the error of that reading and no body is logged. When the provider selection
  does not convert to a string (an object with a property \<^verbatim>\<open>toString\<close>), lines 149 and
  181 throw, the response reports that \<^verbatim>\<open>TypeError\<close> without the status text, and no body
  is logged.
\<close>

theorem upstream_error:
  assumes "handler pf ev net req = (evs, resp)"
    and "Fetch out \<in> set evs"
    and "net out = Inr r"
    and "\<not> reply_ok r"
  shows "\<exists>fs. read_fields req = ret fs \<and>
    status resp = 500 \<and>
    (\<exists>msg st. content resp = Failure msg st) \<and>
    (case to_string pf (aiProvider fs) of
       None \<Rightarrow>
         content resp =
           Failure (native_message pf NotPrimitive) (stack_trace pf (Native NotPrimitive)) \<and>
         (\<forall>name b. Log (LogApiError name b) \<notin> set evs)
     | Some name \<Rightarrow>
         (case reply_body r of
            None \<Rightarrow>
              content resp =
                Failure (js ''Failed to generate JMX file using AI: '' @ native_message pf BodyRead)
                  (stack_trace pf (Error (js ''Failed to generate JMX file using AI: '' @
                    native_message pf BodyRead))) \<and>
              (\<forall>name b. Log (LogApiError name b) \<notin> set evs)
          | Some b \<Rightarrow>
              content resp =
                Failure (js ''Failed to generate JMX file using AI: '' @
                    name @ js '' API error: '' @ reply_statusText r)
                  (stack_trace pf (Error (js ''Failed to generate JMX file using AI: '' @
                    name @ js '' API error: '' @ reply_statusText r))) \<and>
              Log (LogApiError name b) \<in> set evs))"
proof -
  have "Fetch out \<in> set (fst (handler pf ev net req))"
    using assms(1,2) by simp
  then obtain fs e0 d where m: "req_method req \<noteq> js ''OPTIONS''"
    and rf: "read_fields req = ret fs"
    and dec: "decode pf fs = (e0, Inr d)"
    and call: "call_provider pf ev net (aiProvider fs) (jmxPrompt pf (dec_har d)) = ([Fetch out], net out)"
    using handler_fetch by blast
  have call': "call_provider pf ev net (aiProvider fs) (jmxPrompt pf (dec_har d)) = ([Fetch out], Inr r)"
    using call assms(3) by simp
  obtain s where e0: "e0 = [Log LogProcessing, Log (LogFound s)]"
    using dec unfolding decode_Inr_iff by blast
  define e1 where "e1 = fst (generate pf (aiProvider fs) r)"
  obtain e where g: "generate pf (aiProvider fs) r = (e1, Inl e)"
    unfolding e1_def
    by (cases "to_string pf (aiProvider fs)"; cases "reply_body r")
      (simp_all add: generate_refused [OF assms(4)])
  have "handler pf ev net req = (e0 @ [Fetch out] @ e1 @ [Log (LogHandlerError e)], error_response pf e)"
    using m rf dec call' g by (rule handler_generate_failed)
  with assms(1) have evs: "evs = e0 @ [Fetch out] @ e1 @ [Log (LogHandlerError e)]"
    and resp: "resp = error_response pf e"
    by simp_all
  have "status resp = 500" "\<exists>msg st. content resp = Failure msg st"
    by (simp_all add: resp error_response_def)
  moreover have "case to_string pf (aiProvider fs) of
       None \<Rightarrow>
         content resp =
           Failure (native_message pf NotPrimitive) (stack_trace pf (Native NotPrimitive)) \<and>
         (\<forall>name b. Log (LogApiError name b) \<notin> set evs)
     | Some name \<Rightarrow>
         (case reply_body r of
            None \<Rightarrow>
              content resp =
                Failure (js ''Failed to generate JMX file using AI: '' @ native_message pf BodyRead)
                  (stack_trace pf (Error (js ''Failed to generate JMX file using AI: '' @
                    native_message pf BodyRead))) \<and>
              (\<forall>name b. Log (LogApiError name b) \<notin> set evs)
          | Some b \<Rightarrow>
              content resp =
                Failure (js ''Failed to generate JMX file using AI: '' @
                    name @ js '' API error: '' @ reply_statusText r)
                  (stack_trace pf (Error (js ''Failed to generate JMX file using AI: '' @
                    name @ js '' API error: '' @ reply_statusText r))) \<and>
              Log (LogApiError name b) \<in> set evs)"
    using g
    by (cases "to_string pf (aiProvider fs)"; cases "reply_body r")
      (auto simp: generate_refused [OF assms(4)] evs e0 resp error_response_def)
  ultimately show ?thesis
    using rf by blast
qed

section \<open>The load configuration\<close>

lemma prop_name_loadConfig: "p \<noteq> P_loadConfig \<Longrightarrow> prop_name p \<noteq> js ''loadConfig''"
  by (cases p) (simp_all add: js_def)

lemma own_agree:
  assumes "\<forall>k. k \<noteq> js ''loadConfig'' \<longrightarrow> map_of kvs1 k = map_of kvs2 k" and "p \<noteq> P_loadConfig"
  shows "own (J (JObj kvs1)) p = own (J (JObj kvs2)) p"
  using assms prop_name_loadConfig [of p] by simp

lemma read_fields_obj:
  "req_json req = Some (JObj kvs) \<Longrightarrow>
   read_fields req =
     ret \<lparr>harContent = own (J (JObj kvs)) P_harContent,
          loadConfig = own (J (JObj kvs)) P_loadConfig,
          planName = default_to (own (J (JObj kvs)) P_testPlanName) (J (JStr (js ''HAR Performance Test''))),
          aiProvider = default_to (own (J (JObj kvs)) P_aiProvider) (J (JStr (js ''openai'')))\<rparr>"
  by (simp add: read_fields_def)

lemma load_config_unused:
  "bind (bind (decode pf (fs\<lparr>loadConfig := v\<rparr>)) (produce pf ev net)) (finish pf) =
   bind (bind (decode pf fs) (produce pf ev net)) (finish pf)"
  by (simp add: decode_def produce_def finish_def bind_assoc bind_ret cong: if_cong)

text \<open>
  C5. Two requests with the same method whose bodies are objects that agree on every
  field but \<^verbatim>\<open>loadConfig\<close> have the same effects, that is the same call to the provider
  with the same prompt and the same lines of log, and the same response.
\<close>

theorem load_config_ignored:
  assumes "req_method r1 = req_method r2"
    and "req_json r1 = Some (JObj kvs1)"
    and "req_json r2 = Some (JObj kvs2)"
    and "\<forall>k. k \<noteq> js ''loadConfig'' \<longrightarrow> map_of kvs1 k = map_of kvs2 k"
  shows "handler pf ev net r1 = handler pf ev net r2"
proof -
  define fs1 where "fs1 = \<lparr>harContent = own (J (JObj kvs1)) P_harContent,
          loadConfig = own (J (JObj kvs1)) P_loadConfig,
          planName = default_to (own (J (JObj kvs1)) P_testPlanName) (J (JStr (js ''HAR Performance Test''))),
          aiProvider = default_to (own (J (JObj kvs1)) P_aiProvider) (J (JStr (js ''openai'')))\<rparr>"
  have r1: "read_fields r1 = ret fs1"
    unfolding fs1_def using assms(2) by (rule read_fields_obj)
  have "read_fields r2 = ret \<lparr>harContent = own (J (JObj kvs2)) P_harContent,
          loadConfig = own (J (JObj kvs2)) P_loadConfig,
          planName = default_to (own (J (JObj kvs2)) P_testPlanName) (J (JStr (js ''HAR Performance Test''))),
          aiProvider = default_to (own (J (JObj kvs2)) P_aiProvider) (J (JStr (js ''openai'')))\<rparr>"
    using assms(3) by (rule read_fields_obj)
  also have "\<dots> = ret (fs1\<lparr>loadConfig := own (J (JObj kvs2)) P_loadConfig\<rparr>)"
    unfolding fs1_def
    by (simp add: own_agree [OF assms(4), of P_harContent] own_agree [OF assms(4), of P_testPlanName]
        own_agree [OF assms(4), of P_aiProvider] del: own.simps)
  finally have r2: "read_fields r2 = ret (fs1\<lparr>loadConfig := own (J (JObj kvs2)) P_loadConfig\<rparr>)" .
  have "bind (prepare pf ev net r1) (finish pf) = bind (prepare pf ev net r2) (finish pf)"
    by (simp only: prepare_def r1 r2 bind_ret load_config_unused)
  then show ?thesis
    by (simp add: handler_def assms(1))
qed

section \<open>The summary\<close>

lemma set_add_foldl:
  assumes "\<And>x y. x \<in> set acc \<union> set xs \<Longrightarrow> y \<in> set acc \<union> set xs \<Longrightarrow> eq x y \<longleftrightarrow> x = y"
    and "distinct acc"
  shows "set (foldl (set_add eq) acc xs) = set acc \<union> set xs \<and> distinct (foldl (set_add eq) acc xs)"
  using assms
proof (induction xs arbitrary: acc)
  case Nil
  then show ?case by simp
next
  case (Cons x xs)
  have ex: "list_ex (eq x) acc \<longleftrightarrow> x \<in> set acc"
    using Cons.prems(1) by (auto simp: list_ex_iff)
  have "set (foldl (set_add eq) (set_add eq acc x) xs) = set (set_add eq acc x) \<union> set xs \<and>
      distinct (foldl (set_add eq) (set_add eq acc x) xs)"
  proof (rule Cons.IH)
    show "distinct (set_add eq acc x)"
      using Cons.prems(2) by (simp add: set_add_def ex)
    fix a b
    assume "a \<in> set (set_add eq acc x) \<union> set xs" "b \<in> set (set_add eq acc x) \<union> set xs"
    then have "a \<in> set acc \<union> set (x # xs)" "b \<in> set acc \<union> set (x # xs)"
      by (auto simp: set_add_def split: if_splits)
    then show "eq a b \<longleftrightarrow> a = b" by (rule Cons.prems(1))
  qed
  moreover have "set (set_add eq acc x) = insert x (set acc)"
    by (auto simp: set_add_def ex)
  ultimately show ?case
    by simp
qed

lemma new_Set_set:
  assumes "\<And>x y. x \<in> set xs \<Longrightarrow> y \<in> set xs \<Longrightarrow> eq x y \<longleftrightarrow> x = y"
  shows "set (new_Set eq xs) = set xs \<and> distinct (new_Set eq xs)"
  using set_add_foldl [of "[]" xs eq] assms by (simp add: new_Set_def)

lemma map_comp_Inr:
  "map_comp f xs = (evs, Inr ys) \<Longrightarrow> list_all2 (\<lambda>x y. snd (f x) = Inr y) xs ys"
proof (induction xs arbitrary: evs ys)
  case Nil
  then show ?case by (simp add: ret_def)
next
  case (Cons x xs)
  from Cons.prems obtain e1 y e2 zs e3 where "f x = (e1, Inr y)"
    and "map_comp f xs = (e2, Inr zs)" and "ys = y # zs"
    by (auto simp: bind_Inr_iff ret_def)
  with Cons.IH show ?case by auto
qed

lemma handler_success:
  assumes "content (snd (handler pf ev net req)) = Success x m sm"
  shows "\<exists>e1 c. prepare pf ev net req = (e1, Inr c) \<and>
    make_summary pf (cand_entries c) = ([], Inr sm)"
proof -
  have m: "req_method req \<noteq> js ''OPTIONS''"
    using assms by (auto simp: handler_def)
  obtain evs r where b: "bind (prepare pf ev net req) (finish pf) = (evs, r)"
    by (cases "bind (prepare pf ev net req) (finish pf)")
  show ?thesis
  proof (cases r)
    case (Inl e)
    with m b assms show ?thesis
      by (simp add: handler_def error_response_def)
  next
    case (Inr resp)
    with m b assms have resp: "content resp = Success x m sm"
      by (simp add: handler_def)
    from b Inr obtain e1 c e2 where p: "prepare pf ev net req = (e1, Inr c)"
      and f: "finish pf c = (e2, Inr resp)"
      by (auto simp: bind_Inr_iff)
    have v: "valid_jmx (jmxContent c)"
      using finish_Inr [OF f] by simp
    define R where "R = (\<lambda>s. \<lparr>status = 200, headers = json_headers,
               content = Success (jmxContent c)
                 \<lparr>provider = (if is_google (aiProvider (cand_fields c))
                     then js ''Google AI Studio'' else js ''OpenAI''),
                  generatedByAI = True,
                  testPlanName = planName (cand_fields c)\<rparr> s\<rparr>)"
    define B where "B = bind (make_summary pf (cand_entries c)) (\<lambda>s. ret (R s))"
    have "finish pf c = (Log LogSuccess # fst B, snd B)"
      using v by (simp add: finish_def bind_emit B_def R_def)
    with f have "B = (fst B, Inr resp)"
      by (simp add: prod_eq_iff)
    then obtain s e3 where "make_summary pf (cand_entries c) = (e3, Inr s)" and "resp = R s"
      unfolding B_def bind_Inr_iff by (auto simp: ret_def)
    moreover have "e3 = []"
      using calculation(1) pure_make_summary [of pf "cand_entries c"] by simp
    ultimately have "make_summary pf (cand_entries c) = ([], Inr sm)"
      using resp by (simp add: R_def)
    with p show ?thesis by blast
  qed
qed

lemma prepare_Inr:
  assumes "prepare pf ev net req = (evs, Inr c)"
  shows "\<exists>fs e0 d. read_fields req = ret fs \<and> decode pf fs = (e0, Inr d) \<and>
    cand_entries c = dec_entries d"
proof -
  from assms obtain e1 fs e2 where rf: "read_fields req = (e1, Inr fs)"
    and 1: "bind (decode pf fs) (produce pf ev net) = (e2, Inr c)"
    unfolding prepare_def bind_Inr_iff by blast
  have rf': "read_fields req = ret fs"
    using rf pure_read_fields [of req] by (simp add: ret_def)
  from 1 obtain e0 d e3 where dec: "decode pf fs = (e0, Inr d)"
    and 2: "produce pf ev net d = (e3, Inr c)"
    unfolding bind_Inr_iff by blast
  from 2 have "cand_entries c = dec_entries d"
    unfolding produce_def bind_Inr_iff by (auto simp: ret_def)
  with rf' dec show ?thesis by blast
qed

lemma read_fields_harContent:
  "req_json req = Some (JObj kvs) \<Longrightarrow> read_fields req = ret fs \<Longrightarrow>
   harContent fs = own (J (JObj kvs)) P_harContent"
  by (auto simp: read_fields_def ret_def)

lemma har_document_parse:
  assumes "har_document pf req = Some doc" and "read_fields req = ret fs"
  shows "parse_har pf (harContent fs) = ret (J doc)"
proof -
  from assms(1) obtain kvs where kvs: "req_json req = Some (JObj kvs)"
    by (auto simp: har_document_def split: option.splits json.splits)
  have "harContent fs = own (J (JObj kvs)) P_harContent"
    using kvs assms(2) by (rule read_fields_harContent)
  then show ?thesis
    using assms(1) kvs
    by (auto simp: har_document_def split: option.splits json.splits)
qed

lemma decode_entries:
  assumes "decode pf fs = (e0, Inr d)" and "parse_har pf (harContent fs) = ret (J doc)"
    and "har_entries doc = Some es"
  shows "dec_entries d = J (JArr es)"
proof -
  from assms(1) have "parse_har pf (harContent fs) = ret (dec_har d)"
    and "dec_entries d = own (own (dec_har d) P_log) P_entries"
    unfolding decode_Inr_iff by auto
  with assms(2) have "dec_entries d = own (own (J doc) P_log) P_entries"
    by (simp add: ret_def)
  then show ?thesis
    using assms(3) by (auto simp: har_entries_def split: json.splits option.splits)
qed

lemma entry_hostname_host:
  assumes "request_field (js ''url'') e \<noteq> None" and "snd (entry_hostname pf e) = Inr h"
  shows "entry_host pf e = Some h"
proof -
  from assms(1) obtain kvs r u where e: "e = JObj kvs"
    and r: "map_of kvs (js ''request'') = Some (JObj r)"
    and u: "map_of r (js ''url'') = Some (JStr u)"
    by (auto simp: request_field_def split: json.splits option.splits)
  have "entry_hostname pf e =
      (case url_hostname pf u of None \<Rightarrow> throw (Native BadUrl) | Some h \<Rightarrow> ret h)"
    by (simp add: entry_hostname_def e r u get_prop_def template_def bind_ret)
  with assms(2) have "url_hostname pf u = Some h"
    by (auto simp: ret_def throw_def split: option.splits)
  then show ?thesis
    by (simp add: entry_host_def request_field_def e r u)
qed

lemma entry_method_field:
  assumes "request_field (js ''method'') e \<noteq> None" and "snd (entry_method e) = Inr v"
  shows "\<exists>m. request_field (js ''method'') e = Some m \<and> v = J (JStr m)"
proof -
  from assms(1) obtain kvs r m where e: "e = JObj kvs"
    and r: "map_of kvs (js ''request'') = Some (JObj r)"
    and m: "map_of r (js ''method'') = Some (JStr m)"
    by (auto simp: request_field_def split: json.splits option.splits)
  have "entry_method e = ret (J (JStr m))"
    by (simp add: entry_method_def e r m get_prop_def bind_ret)
  with assms(2) have "v = J (JStr m)"
    by (simp add: ret_def)
  then show ?thesis
    by (simp add: request_field_def e r m)
qed

lemma make_summary_array:
  assumes "make_summary pf (J (JArr es)) = ([], Inr sm)"
  shows "\<exists>hosts methods. totalRequests sm = J (JNum (of_nat (length es))) \<and>
    list_all2 (\<lambda>e h. snd (entry_hostname pf e) = Inr h) es hosts \<and>
    list_all2 (\<lambda>e v. snd (entry_method e) = Inr v) es methods \<and>
    uniqueDomains sm = new_Set (=) hosts \<and>
    methodsUsed sm = new_Set same_value_zero methods \<and>
    snd (average pf (J (JArr es))) = Inr (avgResponseTime sm)"
proof -
  from assms obtain e1 hosts e2 methods e3 avg where
    h: "map_comp (entry_hostname pf) es = (e1, Inr hosts)" and
    m: "map_comp entry_method es = (e2, Inr methods)" and
    a: "average pf (J (JArr es)) = (e3, Inr avg)" and
    sm: "sm = \<lparr>totalRequests = J (JNum (of_nat (length es))),
            uniqueDomains = new_Set (=) hosts,
            methodsUsed = new_Set same_value_zero methods,
            avgResponseTime = avg\<rparr>"
    unfolding make_summary_def
    by (auto simp: get_prop_def bind_ret bind_Inr_iff ret_def simp del: average.simps)
  show ?thesis
    using map_comp_Inr [OF h] map_comp_Inr [OF m] sm a by auto
qed

lemma summary_of_entries:
  assumes "har_document pf req = Some doc"
    and "har_entries doc = Some es"
    and "content (snd (handler pf ev net req)) = Success x m sm"
  shows "make_summary pf (J (JArr es)) = ([], Inr sm)"
proof -
  obtain e1 c where p: "prepare pf ev net req = (e1, Inr c)"
    and s: "make_summary pf (cand_entries c) = ([], Inr sm)"
    using handler_success [OF assms(3)] by blast
  obtain fs e0 d where rf: "read_fields req = ret fs" and dec: "decode pf fs = (e0, Inr d)"
    and ce: "cand_entries c = dec_entries d"
    using prepare_Inr [OF p] by blast
  have "dec_entries d = J (JArr es)"
    using dec har_document_parse [OF assms(1) rf] assms(2) by (rule decode_entries)
  with s ce show ?thesis by simp
qed

text \<open>
  C3. Let the HAR document of the request have the entries \<open>es\<close>, each with a URL and a
  method that are strings. In a successful response, \<^verbatim>\<open>totalRequests\<close> is the number of
  entries; \<^verbatim>\<open>uniqueDomains\<close> lists, each once, the hostnames that the URL parser gives for
  the URLs of the entries; \<^verbatim>\<open>methodsUsed\<close> lists, each once, the methods of the entries.
\<close>

theorem summary_of_har:
  assumes "har_document pf req = Some doc"
    and "har_entries doc = Some es"
    and "list_all well_formed_entry es"
    and "content (snd (handler pf ev net req)) = Success x m sm"
  shows "totalRequests sm = J (JNum (of_nat (length es))) \<and>
    Some ` set (uniqueDomains sm) = entry_host pf ` set es \<and>
    distinct (uniqueDomains sm) \<and>
    set (methodsUsed sm) =
      (\<lambda>m. J (JStr m)) ` {m. \<exists>e \<in> set es. request_field (js ''method'') e = Some m} \<and>
    distinct (methodsUsed sm)"
proof -
  have "make_summary pf (J (JArr es)) = ([], Inr sm)"
    using assms(1,2,4) by (rule summary_of_entries)
  then obtain hosts methods where n: "totalRequests sm = J (JNum (of_nat (length es)))"
    and hs: "list_all2 (\<lambda>e h. snd (entry_hostname pf e) = Inr h) es hosts"
    and ms: "list_all2 (\<lambda>e v. snd (entry_method e) = Inr v) es methods"
    and ud: "uniqueDomains sm = new_Set (=) hosts"
    and mu: "methodsUsed sm = new_Set same_value_zero methods"
    using make_summary_array by blast
  have wf: "\<And>e. e \<in> set es \<Longrightarrow> well_formed_entry e"
    using assms(3) by (simp add: list_all_iff)
  have "list_all2 (\<lambda>e h. entry_host pf e = Some h) es hosts"
  proof (rule list.rel_mono_strong [OF hs])
    fix e h
    assume "e \<in> set es" and "snd (entry_hostname pf e) = Inr h"
    then show "entry_host pf e = Some h"
      using wf [of e] by (simp add: well_formed_entry_def entry_hostname_host)
  qed
  then have hosts: "map Some hosts = map (entry_host pf) es"
    by (induction rule: list_all2_induct) simp_all
  have "list_all2 (\<lambda>e v. \<exists>m. request_field (js ''method'') e = Some m \<and> v = J (JStr m)) es methods"
  proof (rule list.rel_mono_strong [OF ms])
    fix e v
    assume "e \<in> set es" and "snd (entry_method e) = Inr v"
    then show "\<exists>m. request_field (js ''method'') e = Some m \<and> v = J (JStr m)"
      using wf [of e] by (simp add: well_formed_entry_def entry_method_field)
  qed
  then have a: "\<forall>v \<in> set methods. \<exists>e \<in> set es. \<exists>m. request_field (js ''method'') e = Some m \<and> v = J (JStr m)"
    and b: "\<forall>e \<in> set es. \<exists>m. request_field (js ''method'') e = Some m \<and> J (JStr m) \<in> set methods"
    by (induction rule: list_all2_induct) auto
  have methods: "set methods =
      (\<lambda>m. J (JStr m)) ` {m. \<exists>e \<in> set es. request_field (js ''method'') e = Some m}"
  proof (rule set_eqI, rule iffI)
    fix v
    assume "v \<in> set methods"
    then obtain e m where "e \<in> set es" "request_field (js ''method'') e = Some m" "v = J (JStr m)"
      using a by blast
    then show "v \<in> (\<lambda>m. J (JStr m)) ` {m. \<exists>e \<in> set es. request_field (js ''method'') e = Some m}"
      by blast
  next
    fix v
    assume "v \<in> (\<lambda>m. J (JStr m)) ` {m. \<exists>e \<in> set es. request_field (js ''method'') e = Some m}"
    then obtain e m where "e \<in> set es" "request_field (js ''method'') e = Some m" "v = J (JStr m)"
      by blast
    then show "v \<in> set methods"
      using b by force
  qed
  have strs: "\<forall>v \<in> set methods. \<exists>m. v = J (JStr m)"
    using a by blast
  have "set (new_Set (=) hosts) = set hosts \<and> distinct (new_Set (=) hosts)"
    by (rule new_Set_set) simp
  moreover have "set (new_Set same_value_zero methods) = set methods \<and>
      distinct (new_Set same_value_zero methods)"
  proof (rule new_Set_set)
    fix a b
    assume "a \<in> set methods" "b \<in> set methods"
    then obtain s t where "a = J (JStr s)" "b = J (JStr t)"
      using strs by blast
    then show "same_value_zero a b \<longleftrightarrow> a = b" by simp
  qed
  moreover have "Some ` set hosts = entry_host pf ` set es"
    using arg_cong [OF hosts, of set] by simp
  ultimately show ?thesis
    using n ud mu methods by simp
qed

section \<open>The mean response time\<close>

lemma entry_time_add:
  assumes "entry_time e = Some t"
  shows "add_time pf (PNum a) e = ret (PNum (fadd a (Fin t)))"
proof -
  from assms obtain kvs where "e = JObj kvs" and "map_of kvs (js ''time'') = Some (JNum t)"
    by (auto simp: entry_time_def split: json.splits option.splits)
  then show ?thesis
    by (simp add: add_time_def get_prop_def bind_ret)
qed

lemma entry_times_Cons:
  "entry_time e = Some t \<Longrightarrow> entry_times (e # es) = t # entry_times es"
  by (simp add: entry_times_def map_filter_simps)

lemma reduce_times:
  "list_all timed_entry es \<Longrightarrow>
   reduce_comp (add_time pf) (PNum a) es = ret (PNum (foldl fadd a (map Fin (entry_times es))))"
proof (induction es arbitrary: a)
  case Nil
  show ?case by (simp add: entry_times_def map_filter_simps)
next
  case (Cons e es)
  then obtain t where t: "entry_time e = Some t"
    by (auto simp: timed_entry_def)
  show ?case
    using Cons by (simp add: entry_time_add [OF t] entry_times_Cons [OF t] bind_ret)
qed

lemma length_entry_times: "list_all timed_entry es \<Longrightarrow> length (entry_times es) = length es"
  by (induction es) (auto simp: entry_times_def map_filter_simps timed_entry_def)

lemma average_times:
  "list_all timed_entry es \<Longrightarrow> average pf (J (JArr es)) = ret (double_mean (entry_times es))"
  by (simp add: reduce_times bind_ret double_mean_def length_entry_times)

lemma double_mean_Nil: "double_mean [] = NaN"
  by (simp add: double_mean_def)

text \<open>
  C4, as amended. Let the HAR document of the request have the entries \<open>es\<close>, each with a
  time that is a number. In a successful response, \<^verbatim>\<open>avgResponseTime\<close> is \<^verbatim>\<open>NaN\<close> when there
  is no entry, and otherwise the mean as double arithmetic finds it: the times are added
  from left to right, starting from 0, each sum rounded to the nearest double, and the
  last sum is divided by the number of entries and rounded again.
\<close>

theorem average_response_time:
  assumes "har_document pf req = Some doc"
    and "har_entries doc = Some es"
    and "list_all timed_entry es"
    and "content (snd (handler pf ev net req)) = Success x m sm"
  shows "avgResponseTime sm = (if es = [] then NaN else double_mean (entry_times es))"
proof -
  have "make_summary pf (J (JArr es)) = ([], Inr sm)"
    using assms(1,2,4) by (rule summary_of_entries)
  then have "snd (average pf (J (JArr es))) = Inr (avgResponseTime sm)"
    using make_summary_array by blast
  then have "avgResponseTime sm = double_mean (entry_times es)"
    unfolding average_times [OF assms(3)] by (simp add: ret_def)
  then show ?thesis
    by (auto simp: entry_times_def map_filter_simps double_mean_Nil)
qed

section \<open>Sample runs\<close>

lemma sample_fields:
  "read_fields (post (sample_body har p lc)) =
     ret \<lparr>harContent = J har, loadConfig = J lc,
          planName = J (JStr (js ''HAR Performance Test'')), aiProvider = J (JStr (js p))\<rparr>"
  by (simp add: read_fields_def post_def sample_body_def default_to_def js_def)

lemma odd_fields:
  "read_fields (post odd_provider_body) =
     ret \<lparr>harContent = J sample_har, loadConfig = Undefined,
          planName = J (JStr (js ''HAR Performance Test'')),
          aiProvider = J (JObj [(js ''toString'', JNum 1)])\<rparr>"
  by (simp add: read_fields_def post_def odd_provider_body_def default_to_def js_def)

lemma sample_decode:
  assumes "harContent fs = J (har_of es)" and "number_string pf (Fin (of_nat (length es))) = s"
  shows "decode pf fs =
     ([Log LogProcessing, Log (LogFound s)],
      Inr \<lparr>dec_fields = fs, dec_har = J (har_of es), dec_entries = J (JArr es)\<rparr>)"
  unfolding decode_Inr_iff using assms
  by (simp add: har_of_def js_def)

lemma sample_count:
  "number_string sample_platform (Fin (of_nat (length sample_entries))) = js ''3''"
  "number_string sample_platform (Fin (of_nat (length ([] :: json list)))) = js ''0''"
  by (simp_all add: sample_platform_def sample_entries_def)

lemma post_method: "req_method (post b) \<noteq> js ''OPTIONS''"
  by (simp add: post_def js_def)

lemma generate_ok:
  assumes "reply_ok r" and "reply_body r = Some b" and "json_parse pf b = Some dta"
    and "to_string pf p = Some name"
    and "(if is_google p then google_raw dta else openai_raw dta) = ret (J (JStr t))"
  shows "generate pf p r = ([Log (LogReceived name)], Inr (spec_candidate t))"
proof -
  have "(if is_google p then google_text dta else openai_text dta) = ret (spec_candidate t)"
    using assms(5) by (auto simp: google_text_raw openai_text_raw split: if_splits)
  moreover have "read_json pf r = ret dta"
    using assms(2,3) by (simp add: read_json_def read_text_def bind_ret)
  moreover have "template pf p = ret name"
    using assms(4) by (simp add: template_def)
  ultimately show ?thesis
    using assms(1) by (simp add: generate_def catch_def bind_ret bind_emit) (simp add: ret_def)
qed

lemma handler_ok:
  assumes "req_method req \<noteq> js ''OPTIONS''" and "prepare pf ev net req = (evs, Inr c)"
    and "valid_jmx (jmxContent c)" and "make_summary pf (cand_entries c) = ret s"
  shows "handler pf ev net req =
    (evs @ [Log LogSuccess],
     \<lparr>status = 200, headers = json_headers,
      content = Success (jmxContent c)
        \<lparr>provider = (if is_google (aiProvider (cand_fields c))
            then js ''Google AI Studio'' else js ''OpenAI''),
         generatedByAI = True,
         testPlanName = planName (cand_fields c)\<rparr> s\<rparr>)"
  using assms by (simp add: handler_def bind_Inr finish_def bind_emit bind_ret ret_def)

lemma sample_times: "entry_times sample_entries = [tenth, fifth, three_tenths]"
  by (simp add: entry_times_def map_filter_simps sample_entries_def sample_entry_def
      entry_time_def js_def)

lemma sample_timed: "list_all timed_entry sample_entries"
  by (simp add: timed_entry_def sample_entries_def sample_entry_def entry_time_def js_def)

text \<open>
  The three times are the doubles nearest to 1/10, 1/5 and 3/10, and the handler's mean
  of them step by step: 0.1 + 0.2 is 0.30000000000000004, adding 0.3 gives
  0.6000000000000001, and a third of that is 0.20000000000000004.
\<close>

lemma literal_doubles:
  "round64 (1 / 10) = Fin tenth" "round64 (1 / 5) = Fin fifth" "round64 (3 / 10) = Fin three_tenths"
  by code_simp+

lemma sample_sums:
  "fadd (Fin 0) (Fin tenth) = Fin tenth"
  "fadd (Fin tenth) (Fin fifth) = Fin (1351079888211149 / 4503599627370496)"
  "fadd (Fin (1351079888211149 / 4503599627370496)) (Fin three_tenths) =
     Fin (1351079888211149 / 2251799813685248)"
  "fdiv_len (Fin (1351079888211149 / 2251799813685248)) 3 =
     Fin (7205759403792795 / 36028797018963968)"
  by code_simp+

lemma sample_mean:
  "double_mean [tenth, fifth, three_tenths] = Fin (7205759403792795 / 36028797018963968)"
  by code_simp

lemma sample_exact_mean:
  "exact_mean [tenth, fifth, three_tenths] = 21617278211378381 / 108086391056891904"
  by code_simp

lemma sample_rounded_mean:
  "round64 (21617278211378381 / 108086391056891904) = Fin (3602879701896397 / 18014398509481984)"
  by code_simp

lemma sample_average:
  "average sample_platform (J (JArr sample_entries)) =
     ret (Fin (7205759403792795 / 36028797018963968))"
  by (simp only: average_times [OF sample_timed] sample_times sample_mean)

lemma sample_summary:
  "make_summary sample_platform (J (JArr sample_entries)) =
     ret \<lparr>totalRequests = J (JNum 3),
          uniqueDomains = [js ''a.example'', js ''b.example''],
          methodsUsed = [J (JStr (js ''GET'')), J (JStr (js ''POST''))],
          avgResponseTime = Fin (7205759403792795 / 36028797018963968)\<rparr>"
proof -
  have n: "get_prop (J (JArr sample_entries)) P_length = ret (J (JNum 3))"
    by (simp add: get_prop_def sample_entries_def)
  have hosts: "entries_map (entry_hostname sample_platform) (J (JArr sample_entries)) =
      ret [js ''a.example'', js ''a.example'', js ''b.example'']"
    by (simp add: bind_ret get_prop_def template_def sample_entries_def sample_entry_def
        entry_hostname_def sample_platform_def js_def)
  have methods: "entries_map entry_method (J (JArr sample_entries)) =
      ret [J (JStr (js ''GET'')), J (JStr (js ''POST'')), J (JStr (js ''GET''))]"
    by (simp add: bind_ret get_prop_def sample_entries_def sample_entry_def
        entry_method_def js_def)
  show ?thesis
    unfolding make_summary_def n hosts methods sample_average bind_ret
    by (simp add: new_Set_def set_add_def js_def)
qed

lemma empty_summary:
  "make_summary pf (J (JArr [])) =
     ret \<lparr>totalRequests = J (JNum 0), uniqueDomains = [], methodsUsed = [],
          avgResponseTime = NaN\<rparr>"
  by (simp add: make_summary_def get_prop_def bind_ret new_Set_def)

lemma sample_call:
  "call_provider sample_platform with_keys (sample_network r) (J (JStr (js ''openai''))) prompt =
     ([Fetch (openai_request sample_platform (js ''sk-test'') prompt)], Inr r)"
  "call_provider sample_platform with_keys (sample_network r) (J (JStr (js ''google''))) prompt =
     ([Fetch (google_request sample_platform (js ''g-test'') prompt)], Inr r)"
  "call_provider sample_platform with_keys (sample_network r) (J (JObj kvs)) prompt =
     ([Fetch (openai_request sample_platform (js ''sk-test'') prompt)], Inr r)"
  by (simp_all add: call_provider_cases is_google_def with_keys_def sample_network_def js_def)

lemma not_google: "\<not> is_google (J (JStr (js ''openai'')))"
  by (simp add: is_google_def js_def)

lemma sample_prepare:
  assumes "json_parse sample_platform (js b) = Some (sample_answer t)"
    and "number_string sample_platform (Fin (of_nat (length es))) = s"
  shows "prepare sample_platform with_keys (sample_network (answer b))
      (post (sample_body (har_of es) ''openai'' lc)) =
    ([Log LogProcessing, Log (LogFound s),
      Fetch (openai_request sample_platform (js ''sk-test'')
        (jmxPrompt sample_platform (J (har_of es)))),
      Log (LogReceived (js ''openai''))],
     Inr \<lparr>cand_fields = \<lparr>harContent = J (har_of es), loadConfig = J lc,
            planName = J (JStr (js ''HAR Performance Test'')), aiProvider = J (JStr (js ''openai''))\<rparr>,
          cand_entries = J (JArr es), jmxContent = spec_candidate t\<rparr>)"
proof -
  let ?fs = "\<lparr>harContent = J (har_of es), loadConfig = J lc,
    planName = J (JStr (js ''HAR Performance Test'')), aiProvider = J (JStr (js ''openai''))\<rparr>"
  let ?d = "\<lparr>dec_fields = ?fs, dec_har = J (har_of es), dec_entries = J (JArr es)\<rparr>"
  have dec: "decode sample_platform ?fs = ([Log LogProcessing, Log (LogFound s)], Inr ?d)"
    by (rule sample_decode) (simp_all add: assms(2))
  have gen: "generate sample_platform (J (JStr (js ''openai''))) (answer b) =
      ([Log (LogReceived (js ''openai''))], Inr (spec_candidate t))"
    by (rule generate_ok [where dta = "sample_answer t" and b = "js b"])
      (simp_all add: answer_def assms(1) sample_answer_raw not_google)
  have "produce sample_platform with_keys (sample_network (answer b)) ?d =
      ([Fetch (openai_request sample_platform (js ''sk-test'')
          (jmxPrompt sample_platform (J (har_of es))))] @
       [Log (LogReceived (js ''openai''))],
       Inr \<lparr>cand_fields = dec_fields ?d, cand_entries = dec_entries ?d, jmxContent = spec_candidate t\<rparr>)"
    by (simp add: produce_def sample_call gen bind_Inr ret_def)
  then show ?thesis
    using prepare_decoded [OF sample_fields dec] by simp
qed

lemma sample_parse:
  "json_parse sample_platform (js ''plan'') = Some (sample_answer fenced_plan)"
  "json_parse sample_platform (js ''prose'') = Some (sample_answer (js ''I cannot do that.''))"
  by (simp_all add: sample_platform_def js_def)

lemma plan_candidate: "spec_candidate fenced_plan = js ''<jmeterTestPlan></jmeterTestPlan>''"
  by code_simp

lemma plan_valid: "valid_jmx (js ''<jmeterTestPlan></jmeterTestPlan>'')"
proof -
  have "js_includes (js ''<jmeterTestPlan></jmeterTestPlan>'') (js ''<jmeterTestPlan'')"
    by code_simp
  then show ?thesis
    by (simp add: valid_jmx_def js_def)
qed

lemma sample_success:
  assumes "number_string sample_platform (Fin (of_nat (length es))) = s"
    and "make_summary sample_platform (J (JArr es)) = ret sm"
  shows "content (snd (handler sample_platform with_keys (sample_network (answer ''plan''))
       (post (sample_body (har_of es) ''openai'' JNull)))) =
     Success (js ''<jmeterTestPlan></jmeterTestPlan>'')
       \<lparr>provider = js ''OpenAI'', generatedByAI = True,
        testPlanName = J (JStr (js ''HAR Performance Test''))\<rparr> sm"
  using handler_ok [OF post_method sample_prepare [OF sample_parse(1) assms(1)], of JNull sm]
    plan_valid
  by (simp add: plan_candidate assms(2) not_google)

lemma sample_document:
  "har_document sample_platform (post (sample_body (har_of es) ''openai'' JNull)) = Some (har_of es)"
  "har_entries (har_of es) = Some es"
  by (simp_all add: har_document_def har_entries_def post_def sample_body_def har_of_def js_def)

text \<open>
  C2 on a run: OpenAI answers in prose, the candidate is that prose, and the response
  is the error of the validation.
\<close>

theorem validation_rule_witness:
  "req_method (post (sample_body sample_har ''openai'' JNull)) \<noteq> js ''OPTIONS'' \<and>
   handler sample_platform with_keys (sample_network (answer ''prose''))
       (post (sample_body sample_har ''openai'' JNull)) =
     ([Log LogProcessing, Log (LogFound (js ''3'')),
       Fetch (openai_request sample_platform (js ''sk-test'') (jmxPrompt sample_platform (J sample_har))),
       Log (LogReceived (js ''openai'')),
       Log (LogHandlerError (Error (js ''AI did not generate valid JMeter XML content'')))],
      \<lparr>status = 500, headers = json_headers,
       content = Failure (js ''AI did not generate valid JMeter XML content'') (js ''stack'')\<rparr>)"
proof -
  have cand: "spec_candidate (js ''I cannot do that.'') = js ''I cannot do that.''"
    by code_simp
  have "\<not> js_includes (js ''I cannot do that.'') (js ''<jmeterTestPlan'')"
    by code_simp
  then have no: "\<not> sublist (js ''<jmeterTestPlan'') (js ''I cannot do that.'')"
    by (simp add: js_includes_sublist)
  show ?thesis
    using validation_rule [OF post_method
        sample_prepare [OF sample_parse(2) sample_count(1), folded sample_har_def], of JNull] no
    by (simp add: cand post_method sample_platform_def)
qed

text \<open>
  C6 on a run: Google is selected and no key is set.
\<close>

theorem missing_key_witness:
  "req_method (post (sample_body sample_har ''google'' JNull)) \<noteq> js ''OPTIONS'' \<and>
   missing (GOOGLE_AI_API_KEY no_keys) \<and>
   status (snd (handler sample_platform no_keys (sample_network refusal)
       (post (sample_body sample_har ''google'' JNull)))) = 500 \<and>
   content (snd (handler sample_platform no_keys (sample_network refusal)
       (post (sample_body sample_har ''google'' JNull)))) =
     Failure (js ''Google AI API key not configured'') (js ''stack'')"
proof -
  let ?fs = "\<lparr>harContent = J sample_har, loadConfig = J JNull,
    planName = J (JStr (js ''HAR Performance Test'')), aiProvider = J (JStr (js ''google''))\<rparr>"
  let ?d = "\<lparr>dec_fields = ?fs, dec_har = J sample_har, dec_entries = J (JArr sample_entries)\<rparr>"
  have dec: "decode sample_platform ?fs =
      ([Log LogProcessing, Log (LogFound (js ''3''))], Inr ?d)"
    unfolding sample_har_def by (rule sample_decode) (simp_all add: sample_count)
  have g: "is_google (aiProvider ?fs)"
    by (simp add: is_google_def)
  have key: "if is_google (aiProvider ?fs) then missing (GOOGLE_AI_API_KEY no_keys)
      else missing (OPENAI_API_KEY no_keys)"
    by (simp add: no_keys_def)
  have st: "stack_trace sample_platform e = js ''stack''" for e
    by (simp add: sample_platform_def)
  show ?thesis
    using missing_key [OF post_method sample_fields key, of sample_platform "sample_network refusal"]
      g key post_method
    by (simp add: dec st)
qed

text \<open>
  C6 as the specification states it speaks of every request that selects a provider
  whose key is absent. When the HAR content of such a request is not JSON, line 54 throws
  before the key is looked at, and the response reports the error of the parser.
\<close>

theorem missing_key_counterexample:
  "read_fields (post (sample_body (JStr (js ''not json'')) ''google'' JNull)) =
     ret \<lparr>harContent = J (JStr (js ''not json'')), loadConfig = J JNull,
          planName = J (JStr (js ''HAR Performance Test'')), aiProvider = J (JStr (js ''google''))\<rparr> \<and>
   missing (GOOGLE_AI_API_KEY no_keys) \<and>
   handler sample_platform no_keys (sample_network refusal)
       (post (sample_body (JStr (js ''not json'')) ''google'' JNull)) =
     ([Log LogProcessing, Log (LogHandlerError (Native BadJson))],
      \<lparr>status = 500, headers = json_headers,
       content = Failure (js ''Unexpected token'') (js ''stack'')\<rparr>)"
proof -
  let ?fs = "\<lparr>harContent = J (JStr (js ''not json'')), loadConfig = J JNull,
    planName = J (JStr (js ''HAR Performance Test'')), aiProvider = J (JStr (js ''google''))\<rparr>"
  have "json_parse sample_platform (js ''not json'') = None"
    by (simp add: sample_platform_def js_def)
  then have "decode sample_platform ?fs = ([Log LogProcessing], Inl (Native BadJson))"
    by (simp add: decode_def bind_emit bind_throw) (simp add: throw_def)
  then have "prepare sample_platform no_keys (sample_network refusal)
      (post (sample_body (JStr (js ''not json'')) ''google'' JNull)) =
      ([Log LogProcessing], Inl (Native BadJson))"
    by (simp add: prepare_def sample_fields bind_ret bind_Inl)
  then show ?thesis
    using handler_error [OF post_method]
    by (simp add: sample_fields no_keys_def error_response_def sample_platform_def)
qed

text \<open>
  C7 on a run: Google answers \<^verbatim>\<open>Too Many Requests\<close> with a body that tells of a quota.
\<close>

theorem upstream_error_witness:
  "handler sample_platform with_keys (sample_network refusal)
       (post (sample_body sample_har ''google'' JNull)) =
     ([Log LogProcessing, Log (LogFound (js ''3'')),
       Fetch (google_request sample_platform (js ''g-test'') (jmxPrompt sample_platform (J sample_har))),
       Log (LogApiError (js ''google'') (js ''quota exceeded'')),
       Log (LogGenerationFailed (js ''google'')
         (Error (js ''google API error: Too Many Requests''))),
       Log (LogHandlerError (Error
         (js ''Failed to generate JMX file using AI: google API error: Too Many Requests'')))],
      \<lparr>status = 500, headers = json_headers,
       content = Failure
         (js ''Failed to generate JMX file using AI: google API error: Too Many Requests'')
         (js ''stack'')\<rparr>) \<and>
   sample_network refusal
     (google_request sample_platform (js ''g-test'') (jmxPrompt sample_platform (J sample_har))) =
     Inr refusal \<and>
   \<not> reply_ok refusal \<and>
   to_string sample_platform (J (JStr (js ''google''))) = Some (js ''google'') \<and>
   reply_body refusal = Some (js ''quota exceeded'') \<and>
   content \<lparr>status = 500, headers = json_headers,
       content = Failure
         (js ''Failed to generate JMX file using AI: google API error: Too Many Requests'')
         (js ''stack'')\<rparr> =
     Failure (js ''Failed to generate JMX file using AI: '' @
          js ''google'' @ js '' API error: '' @ reply_statusText refusal)
        (stack_trace sample_platform (Error (js ''Failed to generate JMX file using AI: '' @
          js ''google'' @ js '' API error: '' @ reply_statusText refusal)))"
proof -
  let ?fs = "\<lparr>harContent = J sample_har, loadConfig = J JNull,
    planName = J (JStr (js ''HAR Performance Test'')), aiProvider = J (JStr (js ''google''))\<rparr>"
  let ?out = "google_request sample_platform (js ''g-test'') (jmxPrompt sample_platform (J sample_har))"
  let ?evs = "[Log LogProcessing, Log (LogFound (js ''3'')), Fetch ?out,
       Log (LogApiError (js ''google'') (js ''quota exceeded'')),
       Log (LogGenerationFailed (js ''google'')
         (Error (js ''google API error: Too Many Requests''))),
       Log (LogHandlerError (Error
         (js ''Failed to generate JMX file using AI: google API error: Too Many Requests'')))]"
  let ?resp = "\<lparr>status = 500, headers = json_headers,
       content = Failure
         (js ''Failed to generate JMX file using AI: google API error: Too Many Requests'')
         (js ''stack'')\<rparr>"
  have dec: "decode sample_platform ?fs =
      ([Log LogProcessing, Log (LogFound (js ''3''))],
       Inr \<lparr>dec_fields = ?fs, dec_har = J sample_har, dec_entries = J (JArr sample_entries)\<rparr>)"
    unfolding sample_har_def by (rule sample_decode) (simp_all add: sample_count)
  have call: "call_provider sample_platform with_keys (sample_network refusal) (aiProvider ?fs)
      (jmxPrompt sample_platform (dec_har \<lparr>dec_fields = ?fs, dec_har = J sample_har,
        dec_entries = J (JArr sample_entries)\<rparr>)) = ([Fetch ?out], Inr refusal)"
    by (simp add: sample_call)
  have no: "\<not> reply_ok refusal"
    by (simp add: refusal_def)
  have name: "to_string sample_platform (J (JStr (js ''google''))) = Some (js ''google'')"
    by simp
  have body: "reply_body refusal = Some (js ''quota exceeded'')"
    by (simp add: refusal_def)
  have gen: "generate sample_platform (aiProvider ?fs) refusal =
      ([Log (LogApiError (js ''google'') (js ''quota exceeded'')),
        Log (LogGenerationFailed (js ''google'')
          (Error (js ''google API error: Too Many Requests'')))],
       Inl (Error (js ''Failed to generate JMX file using AI: google API error: Too Many Requests'')))"
    by (simp add: generate_refused [OF no] body) (simp add: refusal_def js_def)
  have h: "handler sample_platform with_keys (sample_network refusal)
       (post (sample_body sample_har ''google'' JNull)) = (?evs, ?resp)"
    using handler_generate_failed [OF post_method sample_fields dec call gen]
    by (simp add: error_response_def sample_platform_def)
  have net: "sample_network refusal ?out = Inr refusal"
    by (simp add: sample_network_def)
  obtain fs where "read_fields (post (sample_body sample_har ''google'' JNull)) = ret fs"
    and c: "case to_string sample_platform (aiProvider fs) of
       None \<Rightarrow>
         content ?resp =
           Failure (native_message sample_platform NotPrimitive)
             (stack_trace sample_platform (Native NotPrimitive)) \<and>
         (\<forall>name b. Log (LogApiError name b) \<notin> set ?evs)
     | Some name \<Rightarrow>
         (case reply_body refusal of
            None \<Rightarrow>
              content ?resp =
                Failure (js ''Failed to generate JMX file using AI: '' @
                    native_message sample_platform BodyRead)
                  (stack_trace sample_platform (Error (js ''Failed to generate JMX file using AI: '' @
                    native_message sample_platform BodyRead))) \<and>
              (\<forall>name b. Log (LogApiError name b) \<notin> set ?evs)
          | Some b \<Rightarrow>
              content ?resp =
                Failure (js ''Failed to generate JMX file using AI: '' @
                    name @ js '' API error: '' @ reply_statusText refusal)
                  (stack_trace sample_platform (Error (js ''Failed to generate JMX file using AI: '' @
                    name @ js '' API error: '' @ reply_statusText refusal))) \<and>
              Log (LogApiError name b) \<in> set ?evs)"
    using upstream_error [OF h _ net no] by auto
  moreover from this have "fs = ?fs"
    by (simp only: sample_fields ret_inject)
  ultimately have "content ?resp =
     Failure (js ''Failed to generate JMX file using AI: '' @
          js ''google'' @ js '' API error: '' @ reply_statusText refusal)
        (stack_trace sample_platform (Error (js ''Failed to generate JMX file using AI: '' @
          js ''google'' @ js '' API error: '' @ reply_statusText refusal)))"
    by (simp only: fields.simps name body option.case)
  then show ?thesis
    using h net no name body by (simp only: simp_thms)
qed

text \<open>
  C7 as the specification states it speaks of every answer that is not a success. On
  this run the provider selection is the object \<^verbatim>\<open>{"toString": 1}\<close>: OpenAI is called and
  answers \<^verbatim>\<open>Too Many Requests\<close>, line 149 throws a \<^verbatim>\<open>TypeError\<close> before it logs the body
  of the answer, line 181 throws it again, and the response reports the \<^verbatim>\<open>TypeError\<close>:
  it does not carry the status text, and the body of the answer is in no line of the log.
\<close>

theorem upstream_error_counterexample:
  "\<not> reply_ok refusal \<and>
   reply_statusText refusal = js ''Too Many Requests'' \<and>
   reply_body refusal = Some (js ''quota exceeded'') \<and>
   handler sample_platform with_keys (sample_network refusal) (post odd_provider_body) =
     ([Log LogProcessing, Log (LogFound (js ''3'')),
       Fetch (openai_request sample_platform (js ''sk-test'') (jmxPrompt sample_platform (J sample_har))),
       Log (LogHandlerError (Native NotPrimitive))],
      \<lparr>status = 500, headers = json_headers,
       content = Failure (js ''Cannot convert object to primitive value'') (js ''stack'')\<rparr>)"
proof -
  let ?fs = "\<lparr>harContent = J sample_har, loadConfig = Undefined,
    planName = J (JStr (js ''HAR Performance Test'')),
    aiProvider = J (JObj [(js ''toString'', JNum 1)])\<rparr>"
  let ?out = "openai_request sample_platform (js ''sk-test'') (jmxPrompt sample_platform (J sample_har))"
  have dec: "decode sample_platform ?fs =
      ([Log LogProcessing, Log (LogFound (js ''3''))],
       Inr \<lparr>dec_fields = ?fs, dec_har = J sample_har, dec_entries = J (JArr sample_entries)\<rparr>)"
    unfolding sample_har_def by (rule sample_decode) (simp_all add: sample_count)
  have call: "call_provider sample_platform with_keys (sample_network refusal) (aiProvider ?fs)
      (jmxPrompt sample_platform (dec_har \<lparr>dec_fields = ?fs, dec_har = J sample_har,
        dec_entries = J (JArr sample_entries)\<rparr>)) = ([Fetch ?out], Inr refusal)"
    by (simp add: sample_call)
  have no: "\<not> reply_ok refusal"
    by (simp add: refusal_def)
  have gen: "generate sample_platform (aiProvider ?fs) refusal = ([], Inl (Native NotPrimitive))"
    by (simp add: generate_refused [OF no])
  have "handler sample_platform with_keys (sample_network refusal) (post odd_provider_body) =
      ([Log LogProcessing, Log (LogFound (js ''3''))] @ [Fetch ?out] @ [] @
         [Log (LogHandlerError (Native NotPrimitive))],
       error_response sample_platform (Native NotPrimitive))"
    using post_method odd_fields dec call gen by (rule handler_generate_failed)
  then show ?thesis
    using no by (simp add: error_response_def sample_platform_def refusal_def)
qed

text \<open>
  C3 on a run: three entries, two hostnames, two methods.
\<close>

theorem summary_of_har_witness:
  "har_document sample_platform (post (sample_body sample_har ''openai'' JNull)) = Some sample_har \<and>
   har_entries sample_har = Some sample_entries \<and>
   list_all well_formed_entry sample_entries \<and>
   content (snd (handler sample_platform with_keys (sample_network (answer ''plan''))
       (post (sample_body sample_har ''openai'' JNull)))) =
     Success (js ''<jmeterTestPlan></jmeterTestPlan>'')
       \<lparr>provider = js ''OpenAI'', generatedByAI = True,
        testPlanName = J (JStr (js ''HAR Performance Test''))\<rparr>
       \<lparr>totalRequests = J (JNum 3),
        uniqueDomains = [js ''a.example'', js ''b.example''],
        methodsUsed = [J (JStr (js ''GET'')), J (JStr (js ''POST''))],
        avgResponseTime = Fin (7205759403792795 / 36028797018963968)\<rparr> \<and>
   J (JNum 3) = J (JNum (of_nat (length sample_entries))) \<and>
   Some ` set [js ''a.example'', js ''b.example''] = entry_host sample_platform ` set sample_entries \<and>
   set [J (JStr (js ''GET'')), J (JStr (js ''POST''))] =
     (\<lambda>m. J (JStr m)) ` {m. \<exists>e \<in> set sample_entries. request_field (js ''method'') e = Some m}"
proof -
  let ?req = "post (sample_body sample_har ''openai'' JNull)"
  let ?sm = "\<lparr>totalRequests = J (JNum 3),
        uniqueDomains = [js ''a.example'', js ''b.example''],
        methodsUsed = [J (JStr (js ''GET'')), J (JStr (js ''POST''))],
        avgResponseTime = Fin (7205759403792795 / 36028797018963968)\<rparr>"
  have h1: "har_document sample_platform ?req = Some sample_har"
    unfolding sample_har_def by (rule sample_document)
  have h2: "har_entries sample_har = Some sample_entries"
    unfolding sample_har_def by (rule sample_document)
  have h3: "list_all well_formed_entry sample_entries"
    by (simp add: sample_entries_def sample_entry_def well_formed_entry_def request_field_def js_def)
  have h4: "content (snd (handler sample_platform with_keys (sample_network (answer ''plan'')) ?req)) =
      Success (js ''<jmeterTestPlan></jmeterTestPlan>'')
       \<lparr>provider = js ''OpenAI'', generatedByAI = True,
        testPlanName = J (JStr (js ''HAR Performance Test''))\<rparr> ?sm"
    unfolding sample_har_def using sample_count(1) sample_summary by (rule sample_success)
  show ?thesis
    using summary_of_har [OF h1 h2 h3 h4] h1 h2 h3 h4
    by (simp only: summary.simps simp_thms)
qed

text \<open>
  C4 on two runs: the three entries with the times 0.1, 0.2 and 0.3, and no entry at all.
\<close>

theorem average_response_time_witness:
  "har_document sample_platform (post (sample_body sample_har ''openai'' JNull)) = Some sample_har \<and>
   har_entries sample_har = Some sample_entries \<and>
   list_all timed_entry sample_entries \<and>
   content (snd (handler sample_platform with_keys (sample_network (answer ''plan''))
       (post (sample_body sample_har ''openai'' JNull)))) =
     Success (js ''<jmeterTestPlan></jmeterTestPlan>'')
       \<lparr>provider = js ''OpenAI'', generatedByAI = True,
        testPlanName = J (JStr (js ''HAR Performance Test''))\<rparr>
       \<lparr>totalRequests = J (JNum 3),
        uniqueDomains = [js ''a.example'', js ''b.example''],
        methodsUsed = [J (JStr (js ''GET'')), J (JStr (js ''POST''))],
        avgResponseTime = Fin (7205759403792795 / 36028797018963968)\<rparr> \<and>
   Fin (7205759403792795 / 36028797018963968) = double_mean (entry_times sample_entries) \<and>
   har_document sample_platform (post (sample_body (har_of []) ''openai'' JNull)) = Some (har_of []) \<and>
   har_entries (har_of []) = Some [] \<and>
   content (snd (handler sample_platform with_keys (sample_network (answer ''plan''))
       (post (sample_body (har_of []) ''openai'' JNull)))) =
     Success (js ''<jmeterTestPlan></jmeterTestPlan>'')
       \<lparr>provider = js ''OpenAI'', generatedByAI = True,
        testPlanName = J (JStr (js ''HAR Performance Test''))\<rparr>
       \<lparr>totalRequests = J (JNum 0), uniqueDomains = [], methodsUsed = [],
        avgResponseTime = NaN\<rparr>"
proof -
  let ?req = "post (sample_body sample_har ''openai'' JNull)"
  let ?sm = "\<lparr>totalRequests = J (JNum 3),
        uniqueDomains = [js ''a.example'', js ''b.example''],
        methodsUsed = [J (JStr (js ''GET'')), J (JStr (js ''POST''))],
        avgResponseTime = Fin (7205759403792795 / 36028797018963968)\<rparr>"
  let ?empty = "post (sample_body (har_of []) ''openai'' JNull)"
  let ?em = "\<lparr>totalRequests = J (JNum 0), uniqueDomains = [], methodsUsed = [],
        avgResponseTime = NaN\<rparr>"
  have h1: "har_document sample_platform ?req = Some sample_har"
    unfolding sample_har_def by (rule sample_document)
  have h2: "har_entries sample_har = Some sample_entries"
    unfolding sample_har_def by (rule sample_document)
  have h4: "content (snd (handler sample_platform with_keys (sample_network (answer ''plan'')) ?req)) =
      Success (js ''<jmeterTestPlan></jmeterTestPlan>'')
       \<lparr>provider = js ''OpenAI'', generatedByAI = True,
        testPlanName = J (JStr (js ''HAR Performance Test''))\<rparr> ?sm"
    unfolding sample_har_def using sample_count(1) sample_summary by (rule sample_success)
  have ne: "sample_entries \<noteq> []"
    by (simp add: sample_entries_def)
  have a: "Fin (7205759403792795 / 36028797018963968) = double_mean (entry_times sample_entries)"
    using average_response_time [OF h1 h2 sample_timed h4] ne
    by (simp only: summary.simps if_False)
  have e1: "har_document sample_platform ?empty = Some (har_of [])"
    by (rule sample_document)
  have e2: "har_entries (har_of []) = Some []"
    by (rule sample_document)
  have e3: "list_all timed_entry []"
    by simp
  obtain x m sm where e4: "content (snd (handler sample_platform with_keys
      (sample_network (answer ''plan'')) ?empty)) = Success x m sm"
    and sm: "make_summary sample_platform (J (JArr [])) = ret sm"
    using sample_success [OF sample_count(2) empty_summary] empty_summary by blast
  have "avgResponseTime sm = NaN"
    using average_response_time [OF e1 e2 e3 e4] by simp
  have e5: "content (snd (handler sample_platform with_keys (sample_network (answer ''plan'')) ?empty)) =
      Success (js ''<jmeterTestPlan></jmeterTestPlan>'')
       \<lparr>provider = js ''OpenAI'', generatedByAI = True,
        testPlanName = J (JStr (js ''HAR Performance Test''))\<rparr> ?em"
    using sample_count(2) empty_summary by (rule sample_success)
  show ?thesis
    using h1 h2 sample_timed h4 a e1 e2 e5 by (simp only: simp_thms)
qed

text \<open>
  C4 as the specification states it asks for the arithmetic mean of the times. The mean
  of the doubles 0.1, 0.2 and 0.3 lies nearest to the double 0.2; the handler answers
  0.20000000000000004, since the sum of 0.1 and 0.2 is rounded up before 0.3 is added.
\<close>

theorem average_response_time_counterexample:
  "har_entries sample_har = Some sample_entries \<and>
   entry_times sample_entries = [tenth, fifth, three_tenths] \<and>
   content (snd (handler sample_platform with_keys (sample_network (answer ''plan''))
       (post (sample_body sample_har ''openai'' JNull)))) =
     Success (js ''<jmeterTestPlan></jmeterTestPlan>'')
       \<lparr>provider = js ''OpenAI'', generatedByAI = True,
        testPlanName = J (JStr (js ''HAR Performance Test''))\<rparr>
       \<lparr>totalRequests = J (JNum 3),
        uniqueDomains = [js ''a.example'', js ''b.example''],
        methodsUsed = [J (JStr (js ''GET'')), J (JStr (js ''POST''))],
        avgResponseTime = Fin (7205759403792795 / 36028797018963968)\<rparr> \<and>
   exact_mean (entry_times sample_entries) = 21617278211378381 / 108086391056891904 \<and>
   round64 (exact_mean (entry_times sample_entries)) = Fin (3602879701896397 / 18014398509481984) \<and>
   Fin (7205759403792795 / 36028797018963968) \<noteq> Fin (exact_mean (entry_times sample_entries)) \<and>
   Fin (7205759403792795 / 36028797018963968) \<noteq> round64 (exact_mean (entry_times sample_entries))"
proof -
  have h2: "har_entries sample_har = Some sample_entries"
    unfolding sample_har_def by (rule sample_document)
  have h4: "content (snd (handler sample_platform with_keys (sample_network (answer ''plan''))
       (post (sample_body sample_har ''openai'' JNull)))) =
     Success (js ''<jmeterTestPlan></jmeterTestPlan>'')
       \<lparr>provider = js ''OpenAI'', generatedByAI = True,
        testPlanName = J (JStr (js ''HAR Performance Test''))\<rparr>
       \<lparr>totalRequests = J (JNum 3),
        uniqueDomains = [js ''a.example'', js ''b.example''],
        methodsUsed = [J (JStr (js ''GET'')), J (JStr (js ''POST''))],
        avgResponseTime = Fin (7205759403792795 / 36028797018963968)\<rparr>"
    unfolding sample_har_def using sample_count(1) sample_summary by (rule sample_success)
  have ne: "(7205759403792795 / 36028797018963968 :: rat) \<noteq> 21617278211378381 / 108086391056891904"
    "(7205759403792795 / 36028797018963968 :: rat) \<noteq> 3602879701896397 / 18014398509481984"
    by simp_all
  show ?thesis
    using h2 h4 ne
    by (simp add: sample_times sample_exact_mean sample_rounded_mean)
qed

text \<open>
  C5 on a run: ten threads or five hundred, the invocation is the same.
\<close>

theorem load_config_ignored_witness:
  "load_config 10 \<noteq> load_config 500 \<and>
   handler sample_platform with_keys (sample_network (answer ''plan''))
     (post (sample_body sample_har ''openai'' (load_config 10))) =
   handler sample_platform with_keys (sample_network (answer ''plan''))
     (post (sample_body sample_har ''openai'' (load_config 500)))"
proof -
  have "handler sample_platform with_keys (sample_network (answer ''plan''))
     (post (sample_body sample_har ''openai'' (load_config 10))) =
   handler sample_platform with_keys (sample_network (answer ''plan''))
     (post (sample_body sample_har ''openai'' (load_config 500)))"
    by (rule load_config_ignored
        [where ?kvs1.0 = "[(js ''harContent'', sample_har), (js ''loadConfig'', load_config 10),
            (js ''aiProvider'', JStr (js ''openai''))]"
          and ?kvs2.0 = "[(js ''harContent'', sample_har), (js ''loadConfig'', load_config 500),
            (js ''aiProvider'', JStr (js ''openai''))]"])
      (simp_all add: post_def sample_body_def)
  then show ?thesis
    by (simp add: load_config_def)
qed

end
